theory Spec2Isabelle
  imports Main "HOL-Library.AList"
begin

section \<open>Python values and dictionaries\<close>

text \<open>
  The values stored in a config entry's \<open>data\<close> and \<open>options\<close> mappings are of Python
  type \<open>Any\<close>.  The integration itself only ever creates the value \<open>False\<close>.
\<close>

datatype pyval = PyBool bool | PyStr string | PyInt int | PyNone

text \<open>
  A Python \<open>dict\<close> keeps its keys in insertion order and the migration compares key lists
  (\<open>list(options) != list(DEFAULT_OPTIONS)\<close>), so a dict with string keys is an association
  list.  A Python dict never holds a key twice: a well-formed dict has distinct keys.
\<close>

type_synonym 'v pydict = "(string \<times> 'v) list"

definition keys :: "'v pydict \<Rightarrow> string list" where
  \<comment> \<open>\<open>list(d)\<close>\<close>
  "keys d = map fst d"

definition dict_contains :: "string \<Rightarrow> 'v pydict \<Rightarrow> bool" where
  \<comment> \<open>\<open>k in d\<close>\<close>
  "dict_contains k d = (map_of d k \<noteq> None)"

definition dict_setitem :: "'v pydict \<Rightarrow> string \<Rightarrow> 'v \<Rightarrow> 'v pydict" where
  \<comment> \<open>\<open>d[k] = v\<close>: an existing key keeps its position, a new key goes to the end\<close>
  "dict_setitem d k v = AList.update k v d"

definition dict_pop_default :: "'v pydict \<Rightarrow> string \<Rightarrow> 'v \<Rightarrow> 'v \<times> 'v pydict" where
  \<comment> \<open>\<open>d.pop(k, default)\<close>: the value removed (or the default) and the dict left\<close>
  "dict_pop_default d k dflt =
     (case map_of d k of None \<Rightarrow> (dflt, d) | Some v \<Rightarrow> (v, AList.delete k d))"

definition dict_merge :: "'v pydict \<Rightarrow> 'v pydict \<Rightarrow> 'v pydict" where
  \<comment> \<open>\<open>dict(base, **kw)\<close>: a copy of \<open>base\<close>, then every item of \<open>kw\<close> stored in order\<close>
  "dict_merge base kw = fold (\<lambda>(k, v) acc. dict_setitem acc k v) kw base"

definition dict_setdefault :: "'v pydict \<Rightarrow> string \<Rightarrow> 'v \<Rightarrow> 'v pydict" where
  \<comment> \<open>\<open>d.setdefault(k, v)\<close>, the dict afterwards\<close>
  "dict_setdefault d k v = (if dict_contains k d then d else dict_setitem d k v)"


section \<open>Constants\<close>

text \<open>
  The module \<open>const.py\<close> of the integration is not part of the sources at hand; the five
  string constants imported from it are parameters of the model.
\<close>

record const_py =
  CONF_READ_ONLY :: string
  DATA_DEVICE :: string
  DATA_SUBSCRIPTION :: string
  DATA_TRIP :: string
  DOMAIN :: string

text \<open>Constants of the host framework (\<open>homeassistant.const\<close>).\<close>

definition CONF_USERNAME :: string where
  "CONF_USERNAME = ''username''"

definition CONF_PASSWORD :: string where
  "CONF_PASSWORD = ''password''"

definition EVENT_HOMEASSISTANT_STOP :: string where
  "EVENT_HOMEASSISTANT_STOP = ''homeassistant_stop''"

datatype Platform =
    AIR_QUALITY | ALARM_CONTROL_PANEL | BINARY_SENSOR | BUTTON | CALENDAR | CAMERA
  | CLIMATE | COVER | DEVICE_TRACKER | FAN | GEO_LOCATION | HUMIDIFIER | IMAGE_PROCESSING
  | LIGHT | LOCK | MAILBOX | MEDIA_PLAYER | NOTIFY | NUMBER | REMOTE | SCENE | SELECT
  | SENSOR | SIREN | STT | SWITCH | TTS | VACUUM | UPDATE | WATER_HEATER | WEATHER

definition DEFAULT_OPTIONS :: "const_py \<Rightarrow> pyval pydict" where
  "DEFAULT_OPTIONS c = [(CONF_READ_ONLY c, PyBool False)]"

definition PLATFORMS :: "Platform list" where
  "PLATFORMS = [BINARY_SENSOR, DEVICE_TRACKER, SENSOR, SWITCH]"


section \<open>Objects of the host framework and of the vendor SDK\<close>

text \<open>
  Objects live in heaps, one list per class; a reference is the index of the object in its
  heap, so that sharing of one object by several holders is visible.
\<close>

type_synonym ref = nat

definition heap_update :: "ref \<Rightarrow> ('a \<Rightarrow> 'a) \<Rightarrow> 'a list \<Rightarrow> 'a list" where
  "heap_update r f h = (if r < length h then h[r := f (h ! r)] else h)"

text \<open>\<open>aiobiketrax.Account(username, password, session)\<close>.\<close>

record Account =
  username :: pyval
  password :: pyval
  session :: ref

text \<open>
  The three coordinator classes \<open>DeviceDataUpdateCoordinator\<close>, \<open>TripDataUpdateCoordinator\<close>
  and \<open>SubscriptionDataUpdateCoordinator\<close> of \<open>coordinator.py\<close>, each constructed from
  \<open>(hass, account, entry)\<close>.
\<close>

datatype coordinator_class =
  DeviceDataUpdateCoordinator | TripDataUpdateCoordinator | SubscriptionDataUpdateCoordinator

record Coordinator =
  coordinator_class :: coordinator_class
  account :: ref
  config_entry :: string
  background_task :: bool

text \<open>
  Callbacks: the closure \<open>_stop\<close> of \<open>async_setup_entry\<close>, which captures the device
  coordinator, and the function returned by \<open>hass.bus.async_listen_once\<close>, which removes
  the listener it was returned for.
\<close>

datatype callback = Stop ref | RemoveListener nat

record ConfigEntry =
  entry_id :: string
  data :: "pyval pydict"
  options :: "pyval pydict"
  on_unload :: "callback list"

record HomeAssistant =
  hass_data :: "ref pydict pydict pydict"
    \<comment> \<open>\<open>hass.data\<close>: domain, then entry id, then the entry's dict of coordinators\<close>
  accounts :: "Account list"
  coordinators :: "Coordinator list"
  clientsession :: ref
  bus_listeners :: "(nat \<times> string \<times> callback) list"
    \<comment> \<open>one-shot listeners of \<open>hass.bus\<close>: handle, event type, callback\<close>
  next_listener :: nat
  forwarded_platforms :: "(string \<times> Platform) list"
    \<comment> \<open>the platforms an entry has been forwarded to, by entry id\<close>
  entry_updates :: "string list"
    \<comment> \<open>the calls of \<open>hass.config_entries.async_update_entry\<close>, by entry id\<close>


section \<open>The options migration\<close>

definition async_update_entry ::
  "HomeAssistant \<Rightarrow> ConfigEntry \<Rightarrow> pyval pydict \<Rightarrow> pyval pydict \<Rightarrow> HomeAssistant \<times> ConfigEntry" where
  \<comment> \<open>\<open>hass.config_entries.async_update_entry(entry, data=..., options=...)\<close>\<close>
  "async_update_entry hass entry d opts =
     (hass\<lparr>entry_updates := entry_updates hass @ [entry_id entry]\<rparr>,
      entry\<lparr>data := d, options := opts\<rparr>)"

definition async_migrate_options_from_data_if_missing ::
  "const_py \<Rightarrow> HomeAssistant \<Rightarrow> ConfigEntry \<Rightarrow> HomeAssistant \<times> ConfigEntry" where
  "async_migrate_options_from_data_if_missing c hass entry =
     (let data0 = data entry;
          options0 = options entry
      in if dict_contains (CONF_READ_ONLY c) data0 \<or> keys options0 \<noteq> keys (DEFAULT_OPTIONS c)
         then
           let options1 = dict_merge (DEFAULT_OPTIONS c) options0;
               (v, data1) = dict_pop_default data0 (CONF_READ_ONLY c) (PyBool False);
               options2 = dict_setitem options1 (CONF_READ_ONLY c) v
           in async_update_entry hass entry data1 options2
         else (hass, entry))"

text \<open>The guard of the migration and the value it moves, named for the statements below.\<close>

definition needs_migration :: "const_py \<Rightarrow> ConfigEntry \<Rightarrow> bool" where
  "needs_migration c entry \<longleftrightarrow>
     dict_contains (CONF_READ_ONLY c) (data entry) \<or> keys (options entry) \<noteq> keys (DEFAULT_OPTIONS c)"

definition flag_in_data :: "const_py \<Rightarrow> ConfigEntry \<Rightarrow> pyval" where
  \<comment> \<open>\<open>entry.data.get(CONF_READ_ONLY, False)\<close>\<close>
  "flag_in_data c entry =
     (case map_of (data entry) (CONF_READ_ONLY c) of None \<Rightarrow> PyBool False | Some v \<Rightarrow> v)"


section \<open>Operations of the host framework, the SDK and the coordinators\<close>

datatype error = KeyError string | ConfigEntryNotReady

definition async_get_clientsession :: "HomeAssistant \<Rightarrow> ref" where
  "async_get_clientsession hass = clientsession hass"

definition new_Account :: "HomeAssistant \<Rightarrow> pyval \<Rightarrow> pyval \<Rightarrow> ref \<Rightarrow> ref \<times> HomeAssistant" where
  \<comment> \<open>the constructor \<open>Account(username, password, session)\<close>: a fresh object\<close>
  "new_Account hass u p s =
     (length (accounts hass),
      hass\<lparr>accounts := accounts hass @ [\<lparr>username = u, password = p, session = s\<rparr>]\<rparr>)"

text \<open>
  Modelled from the spec: the constructors of the three coordinator classes of
  \<open>coordinator.py\<close>, which is not part of the sources at hand.  Each is called with
  \<open>(hass, account, entry)\<close> and keeps the account handle it is given (``three timer-driven
  coordinator instances sharing one authenticated account handle''); its background task is
  not running yet.
\<close>

definition new_coordinator ::
  "HomeAssistant \<Rightarrow> coordinator_class \<Rightarrow> ref \<Rightarrow> ConfigEntry \<Rightarrow> ref \<times> HomeAssistant" where
  "new_coordinator hass cls acct entry =
     (length (coordinators hass),
      hass\<lparr>coordinators := coordinators hass @
        [\<lparr>coordinator_class = cls, account = acct, config_entry = entry_id entry,
          background_task = False\<rparr>]\<rparr>)"

text \<open>
  Modelled from the spec: \<open>start_background_task\<close> of the device coordinator
  (\<open>coordinator.py\<close>, not part of the sources at hand).  The spec gives ``a single background
  task (push-update listener) with an externally defined start/stop lifecycle'': starting
  sets the flag of the coordinator.
\<close>

definition start_background_task :: "HomeAssistant \<Rightarrow> ref \<Rightarrow> HomeAssistant" where
  "start_background_task hass r =
     hass\<lparr>coordinators := heap_update r (\<lambda>co. co\<lparr>background_task := True\<rparr>) (coordinators hass)\<rparr>"

text \<open>
  Modelled from the spec: \<open>stop_background_task\<close> of the device coordinator
  (\<open>coordinator.py\<close>, not part of the sources at hand), the other half of the start/stop
  lifecycle: stopping clears the flag of the coordinator.
\<close>

definition stop_background_task :: "HomeAssistant \<Rightarrow> ref \<Rightarrow> HomeAssistant" where
  "stop_background_task hass r =
     hass\<lparr>coordinators := heap_update r (\<lambda>co. co\<lparr>background_task := False\<rparr>) (coordinators hass)\<rparr>"

text \<open>
  \<open>async_config_entry_first_refresh\<close> of the host's coordinator base class fetches once and
  raises \<open>ConfigEntryNotReady\<close> when the fetch fails.  Whether a fetch succeeds is decided
  outside the program: it is a parameter, by coordinator class.
\<close>

definition async_config_entry_first_refresh ::
  "(coordinator_class \<Rightarrow> bool) \<Rightarrow> coordinator_class \<Rightarrow> error option" where
  "async_config_entry_first_refresh refresh_ok cls =
     (if refresh_ok cls then None else Some ConfigEntryNotReady)"

definition async_listen_once ::
  "HomeAssistant \<Rightarrow> string \<Rightarrow> callback \<Rightarrow> callback \<times> HomeAssistant" where
  \<comment> \<open>\<open>hass.bus.async_listen_once(event_type, listener)\<close> returns the function that removes the listener\<close>
  "async_listen_once hass event_type listener =
     (RemoveListener (next_listener hass),
      hass\<lparr>bus_listeners := bus_listeners hass @ [(next_listener hass, event_type, listener)],
           next_listener := Suc (next_listener hass)\<rparr>)"

definition async_on_unload :: "ConfigEntry \<Rightarrow> callback \<Rightarrow> ConfigEntry" where
  "async_on_unload entry func = entry\<lparr>on_unload := on_unload entry @ [func]\<rparr>"

definition async_setup_platforms :: "HomeAssistant \<Rightarrow> ConfigEntry \<Rightarrow> Platform list \<Rightarrow> HomeAssistant" where
  "async_setup_platforms hass entry platforms =
     hass\<lparr>forwarded_platforms :=
       forwarded_platforms hass @ map (\<lambda>p. (entry_id entry, p)) platforms\<rparr>"

text \<open>
  \<open>async_unload_platforms\<close> unloads every platform given and reports whether all of them
  unloaded; whether one platform unloads is a parameter.
\<close>

definition async_unload_platforms ::
  "(Platform \<Rightarrow> bool) \<Rightarrow> HomeAssistant \<Rightarrow> ConfigEntry \<Rightarrow> Platform list \<Rightarrow> bool \<times> HomeAssistant" where
  "async_unload_platforms unloads hass entry platforms =
     (list_all unloads platforms,
      hass\<lparr>forwarded_platforms :=
        filter (\<lambda>(e, p). \<not> (e = entry_id entry \<and> p \<in> set platforms \<and> unloads p))
          (forwarded_platforms hass)\<rparr>)"

fun run_callback :: "HomeAssistant \<Rightarrow> callback \<Rightarrow> HomeAssistant" where
  "run_callback hass (Stop device_coordinator) = stop_background_task hass device_coordinator"
| "run_callback hass (RemoveListener i) =
     hass\<lparr>bus_listeners := filter (\<lambda>(j, _, _). j \<noteq> i) (bus_listeners hass)\<rparr>"

definition async_fire :: "HomeAssistant \<Rightarrow> string \<Rightarrow> HomeAssistant" where
  \<comment> \<open>an event fires: its one-shot listeners are taken off the bus and run\<close>
  "async_fire hass event_type =
     (let fired = filter (\<lambda>(_, e, _). e = event_type) (bus_listeners hass);
          hass1 = hass\<lparr>bus_listeners := filter (\<lambda>(_, e, _). e \<noteq> event_type) (bus_listeners hass)\<rparr>
      in fold (\<lambda>(_, _, listener) h. run_callback h listener) fired hass1)"


section \<open>Setting up and unloading a config entry\<close>

definition async_setup_entry ::
  "const_py \<Rightarrow> (coordinator_class \<Rightarrow> bool) \<Rightarrow> HomeAssistant \<Rightarrow> ConfigEntry
     \<Rightarrow> (error + bool) \<times> HomeAssistant \<times> ConfigEntry" where
  "async_setup_entry c refresh_ok hass0 entry0 =
     (let (hass1, entry) = async_migrate_options_from_data_if_missing c hass0 entry0 in
      case map_of (data entry) CONF_USERNAME of
        None \<Rightarrow> (Inl (KeyError CONF_USERNAME), hass1, entry)
      | Some u \<Rightarrow>
      (case map_of (data entry) CONF_PASSWORD of
        None \<Rightarrow> (Inl (KeyError CONF_PASSWORD), hass1, entry)
      | Some p \<Rightarrow>
        let (account', hass2) = new_Account hass1 u p (async_get_clientsession hass1);
            (device_coordinator, hass3) =
               new_coordinator hass2 DeviceDataUpdateCoordinator account' entry;
            (trip_coordinator, hass4) =
               new_coordinator hass3 TripDataUpdateCoordinator account' entry;
            (subscription_coordinator, hass5) =
               new_coordinator hass4 SubscriptionDataUpdateCoordinator account' entry
        in
        case async_config_entry_first_refresh refresh_ok DeviceDataUpdateCoordinator of
          Some e \<Rightarrow> (Inl e, hass5, entry)
        | None \<Rightarrow>
        (case async_config_entry_first_refresh refresh_ok TripDataUpdateCoordinator of
          Some e \<Rightarrow> (Inl e, hass5, entry)
        | None \<Rightarrow>
        (case async_config_entry_first_refresh refresh_ok SubscriptionDataUpdateCoordinator of
          Some e \<Rightarrow> (Inl e, hass5, entry)
        | None \<Rightarrow>
          let data1 = dict_setdefault (hass_data hass5) (DOMAIN c) [];
              mapping =
                dict_setitem (dict_setitem (dict_setitem []
                  (DATA_DEVICE c) device_coordinator)
                  (DATA_TRIP c) trip_coordinator)
                  (DATA_SUBSCRIPTION c) subscription_coordinator;
              domain_data = (case map_of data1 (DOMAIN c) of None \<Rightarrow> [] | Some dd \<Rightarrow> dd);
              hass6 = hass5\<lparr>hass_data :=
                dict_setitem data1 (DOMAIN c) (dict_setitem domain_data (entry_id entry) mapping)\<rparr>;
              hass7 = start_background_task hass6 device_coordinator;
              (remove, hass8) =
                 async_listen_once hass7 EVENT_HOMEASSISTANT_STOP (Stop device_coordinator);
              entry1 = async_on_unload entry remove;
              hass9 = async_setup_platforms hass8 entry1 PLATFORMS
          in (Inr True, hass9, entry1)))))"

definition async_unload_entry ::
  "const_py \<Rightarrow> (Platform \<Rightarrow> bool) \<Rightarrow> HomeAssistant \<Rightarrow> ConfigEntry
     \<Rightarrow> (error + bool) \<times> HomeAssistant" where
  "async_unload_entry c unloads hass0 entry =
     (let (unload_ok, hass1) = async_unload_platforms unloads hass0 entry PLATFORMS in
      if unload_ok then
        (case map_of (hass_data hass1) (DOMAIN c) of
           None \<Rightarrow> (Inl (KeyError (DOMAIN c)), hass1)
         | Some domain_data \<Rightarrow>
           (case map_of domain_data (entry_id entry) of
              None \<Rightarrow> (Inl (KeyError (entry_id entry)), hass1)
            | Some coordinators' \<Rightarrow>
                let hass2 = hass1\<lparr>hass_data :=
                      dict_setitem (hass_data hass1) (DOMAIN c)
                        (AList.delete (entry_id entry) domain_data)\<rparr>
                in (case map_of coordinators' (DATA_DEVICE c) of
                      None \<Rightarrow> (Inl (KeyError (DATA_DEVICE c)), hass2)
                    | Some device_coordinator \<Rightarrow>
                        (Inr unload_ok, stop_background_task hass2 device_coordinator))))
      else (Inr unload_ok, hass1))"

definition host_shutdown :: "HomeAssistant \<Rightarrow> HomeAssistant" where
  \<comment> \<open>the host fires \<open>EVENT_HOMEASSISTANT_STOP\<close>\<close>
  "host_shutdown hass = async_fire hass EVENT_HOMEASSISTANT_STOP"


section \<open>The life cycle of config entries\<close>

text \<open>
  What the host does with the integration over time: it sets entries up, unloads them and
  finally shuts down.  A state of the life cycle is the host together with the ids of the
  entries that have been set up and not yet successfully unloaded.
\<close>

datatype lifecycle =
    Setup ConfigEntry "coordinator_class \<Rightarrow> bool"
  | Unload ConfigEntry "Platform \<Rightarrow> bool"
  | Shutdown

fun lifecycle_step ::
  "const_py \<Rightarrow> HomeAssistant \<times> string list \<Rightarrow> lifecycle \<Rightarrow> HomeAssistant \<times> string list" where
  "lifecycle_step c (hass, loaded) (Setup entry refresh_ok) =
     (let (r, hass', entry') = async_setup_entry c refresh_ok hass entry
      in (hass', if r = Inr True then List.insert (entry_id entry) loaded else loaded))"
| "lifecycle_step c (hass, loaded) (Unload entry unloads) =
     (let (r, hass') = async_unload_entry c unloads hass entry
      in (hass', if r = Inr True then removeAll (entry_id entry) loaded else loaded))"
| "lifecycle_step c (hass, loaded) Shutdown = (host_shutdown hass, loaded)"

definition run_lifecycle ::
  "const_py \<Rightarrow> HomeAssistant \<Rightarrow> lifecycle list \<Rightarrow> HomeAssistant \<times> string list" where
  "run_lifecycle c hass steps = foldl (lifecycle_step c) (hass, []) steps"




text \<open>
  \<open>hass.data[DOMAIN][entry_id]\<close> is a dict of exactly the three keys, in the order of the
  dict display of \<open>async_setup_entry\<close>, whose values are live coordinators of the three
  classes that were constructed for this entry.
\<close>

definition coordinator_mapping :: "const_py \<Rightarrow> HomeAssistant \<Rightarrow> string \<Rightarrow> ref pydict \<Rightarrow> bool" where
  "coordinator_mapping c hass eid m \<longleftrightarrow>
     keys m = [DATA_DEVICE c, DATA_TRIP c, DATA_SUBSCRIPTION c]
     \<and> list_all (\<lambda>(k, r). r < length (coordinators hass)
                     \<and> config_entry (coordinators hass ! r) = eid) m
     \<and> map (\<lambda>(k, r). coordinator_class (coordinators hass ! r)) m
         = [DeviceDataUpdateCoordinator, TripDataUpdateCoordinator,
            SubscriptionDataUpdateCoordinator]"

definition entry_data :: "const_py \<Rightarrow> HomeAssistant \<Rightarrow> string \<Rightarrow> ref pydict option" where
  \<comment> \<open>\<open>hass.data[DOMAIN][entry_id]\<close>, when both keys are there\<close>
  "entry_data c hass eid =
     (case map_of (hass_data hass) (DOMAIN c) of
        None \<Rightarrow> None
      | Some domain_data \<Rightarrow> map_of domain_data eid)"

definition holds_coordinators :: "const_py \<Rightarrow> HomeAssistant \<Rightarrow> string \<Rightarrow> bool" where
  "holds_coordinators c hass eid \<longleftrightarrow>
     (case entry_data c hass eid of
        None \<Rightarrow> False
      | Some m \<Rightarrow> coordinator_mapping c hass eid m)"

definition task_running :: "HomeAssistant \<Rightarrow> ref \<Rightarrow> bool" where
  \<comment> \<open>the background task of the coordinator at \<open>r\<close> is running\<close>
  "task_running hass r \<longleftrightarrow> r < length (coordinators hass) \<and> background_task (coordinators hass ! r)"


section \<open>The entity base class\<close>

text \<open>
  The vendor's \<open>Device\<close> object: the two attributes the entity reads, \<open>id\<close> and \<open>name\<close>, and
  whatever else the SDK keeps in it (the extension of the record).
\<close>

record Device =
  id_dev :: string
  name_dev :: string

text \<open>The host's \<open>DeviceInfo\<close> is a typed dict; its values are sets of pairs or strings.\<close>

datatype info_value = Identifiers "(string \<times> string) set" | Text string

record 'a BikeTraxBaseEntity =
  coordinator :: ref
  device :: "'a Device_scheme"
  attrs :: "pyval pydict"
  attr_device_info :: "info_value pydict"

definition BikeTraxBaseEntity_init ::
  "const_py \<Rightarrow> ref \<Rightarrow> 'a Device_scheme \<Rightarrow> 'a BikeTraxBaseEntity" where
  "BikeTraxBaseEntity_init c coordinator' device' =
     \<lparr>coordinator = coordinator',
      device = device',
      attrs = dict_setitem (dict_setitem [] ''id'' (PyStr (id_dev device')))
                ''name'' (PyStr (name_dev device')),
      attr_device_info =
        dict_setitem (dict_setitem (dict_setitem []
          ''identifiers'' (Identifiers {(DOMAIN c, id_dev device')}))
          ''model'' (Text (name_dev device')))
          ''name'' (Text (name_dev device'))\<rparr>"


section \<open>Notions for the proofs\<close>

text \<open>
  Two notions for the proofs: the coordinators of \<open>h\<close> are still there in \<open>h'\<close>, with their
  class, entry and account; and the dict of coordinators a setup stores for its entry.
\<close>

definition same_objects :: "HomeAssistant \<Rightarrow> HomeAssistant \<Rightarrow> bool" where
  "same_objects h h' \<longleftrightarrow>
     length (coordinators h) \<le> length (coordinators h')
     \<and> (\<forall>r < length (coordinators h).
           coordinator_class (coordinators h' ! r) = coordinator_class (coordinators h ! r)
         \<and> config_entry (coordinators h' ! r) = config_entry (coordinators h ! r)
         \<and> account (coordinators h' ! r) = account (coordinators h ! r))"

definition new_mapping :: "const_py \<Rightarrow> HomeAssistant \<Rightarrow> ref pydict" where
  "new_mapping c hass =
     dict_setitem (dict_setitem (dict_setitem []
        (DATA_DEVICE c) (length (coordinators hass)))
        (DATA_TRIP c) (Suc (length (coordinators hass))))
        (DATA_SUBSCRIPTION c) (Suc (Suc (length (coordinators hass))))"



section \<open>Sample configurations\<close>

definition sample_const :: const_py where
  "sample_const = \<lparr>CONF_READ_ONLY = ''read_only'', DATA_DEVICE = ''device'',
     DATA_SUBSCRIPTION = ''subscription'', DATA_TRIP = ''trip'', DOMAIN = ''biketrax''\<rparr>"

definition fresh_hass :: HomeAssistant where
  "fresh_hass = \<lparr>hass_data = [], accounts = [], coordinators = [], clientsession = 0,
     bus_listeners = [], next_listener = 0, forwarded_platforms = [], entry_updates = []\<rparr>"

definition migrated_entry :: ConfigEntry where
  \<comment> \<open>an entry whose flag already lives in the options, switched on\<close>
  "migrated_entry = \<lparr>entry_id = ''e1'',
     data = [(''username'', PyStr ''rider''), (''password'', PyStr ''secret'')],
     options = [(''read_only'', PyBool True)], on_unload = []\<rparr>"

definition legacy_entry :: ConfigEntry where
  \<comment> \<open>an entry of the old shape: the flag in the data, no options\<close>
  "legacy_entry = \<lparr>entry_id = ''e2'',
     data = [(''username'', PyStr ''rider''), (''password'', PyStr ''secret''),
             (''read_only'', PyBool True)],
     options = [], on_unload = []\<rparr>"

definition extra_option_entry :: ConfigEntry where
  \<comment> \<open>an entry of the old shape whose options hold another key\<close>
  "extra_option_entry = \<lparr>entry_id = ''e3'',
     data = [(''username'', PyStr ''rider''), (''password'', PyStr ''secret''),
             (''read_only'', PyBool True)],
     options = [(''scan_interval'', PyInt 30)], on_unload = []\<rparr>"

text \<open>The host after \<open>legacy_entry\<close> has been set up on \<open>fresh_hass\<close>, and after it was unloaded.\<close>

definition loaded_hass :: HomeAssistant where
  "loaded_hass = \<lparr>
     hass_data = [(''biketrax'', [(''e2'', [(''device'', 0), (''trip'', 1), (''subscription'', 2)])])],
     accounts = [\<lparr>username = PyStr ''rider'', password = PyStr ''secret'', session = 0\<rparr>],
     coordinators =
       [\<lparr>coordinator_class = DeviceDataUpdateCoordinator, account = 0,
         config_entry = ''e2'', background_task = True\<rparr>,
        \<lparr>coordinator_class = TripDataUpdateCoordinator, account = 0,
         config_entry = ''e2'', background_task = False\<rparr>,
        \<lparr>coordinator_class = SubscriptionDataUpdateCoordinator, account = 0,
         config_entry = ''e2'', background_task = False\<rparr>],
     clientsession = 0,
     bus_listeners = [(0, ''homeassistant_stop'', Stop 0)],
     next_listener = 1,
     forwarded_platforms = [(''e2'', BINARY_SENSOR), (''e2'', DEVICE_TRACKER), (''e2'', SENSOR),
                            (''e2'', SWITCH)],
     entry_updates = [''e2'']\<rparr>"

definition loaded_entry :: ConfigEntry where
  "loaded_entry = \<lparr>entry_id = ''e2'',
     data = [(''username'', PyStr ''rider''), (''password'', PyStr ''secret'')],
     options = [(''read_only'', PyBool True)], on_unload = [RemoveListener 0]\<rparr>"

definition unloaded_hass :: HomeAssistant where
  "unloaded_hass = loaded_hass\<lparr>
     hass_data := [(''biketrax'', [])],
     coordinators :=
       [\<lparr>coordinator_class = DeviceDataUpdateCoordinator, account = 0,
         config_entry = ''e2'', background_task = False\<rparr>,
        \<lparr>coordinator_class = TripDataUpdateCoordinator, account = 0,
         config_entry = ''e2'', background_task = False\<rparr>,
        \<lparr>coordinator_class = SubscriptionDataUpdateCoordinator, account = 0,
         config_entry = ''e2'', background_task = False\<rparr>],
     forwarded_platforms := []\<rparr>"

definition sample_steps :: "lifecycle list" where
  "sample_steps =
     [Setup legacy_entry (\<lambda>_. True),
      Setup migrated_entry (\<lambda>cls. cls \<noteq> TripDataUpdateCoordinator),
      Unload loaded_entry (\<lambda>p. p \<noteq> SWITCH),
      Shutdown]"



section \<open>Facts about dictionaries\<close>

lemma fold_setitem_append:
  "distinct (map fst (acc @ xs)) \<Longrightarrow>
   fold (\<lambda>(k, v) acc. dict_setitem acc k v) xs acc = acc @ xs"
proof (induction xs arbitrary: acc)
  case Nil
  then show ?case by simp
next
  case (Cons x xs)
  obtain k v where x: "x = (k, v)" by (cases x)
  from Cons.prems have notin: "k \<notin> fst ` set acc" by (auto simp: x)
  then have upd: "dict_setitem acc k v = acc @ [(k, v)]"
    by (induction acc) (auto simp: dict_setitem_def)
  from Cons.prems have "distinct (map fst ((acc @ [(k, v)]) @ xs))" by (simp add: x)
  from Cons.IH[OF this] show ?case by (simp add: x upd)
qed

lemma map_of_fold_setitem:
  "distinct (map fst xs) \<Longrightarrow>
   map_of (fold (\<lambda>(k, v) acc. dict_setitem acc k v) xs acc) = map_of acc ++ map_of xs"
proof (induction xs arbitrary: acc)
  case Nil
  then show ?case by simp
next
  case (Cons x xs)
  obtain k v where x: "x = (k, v)" by (cases x)
  from Cons.prems have d: "distinct (map fst xs)" and k: "map_of xs k = None"
    by (auto simp: x map_of_eq_None_iff)
  have "map_of (dict_setitem acc k v) = (map_of acc)(k \<mapsto> v)"
    by (simp add: dict_setitem_def update_conv')
  then show ?case
    using k by (auto simp: x Cons.IH[OF d] fun_eq_iff map_add_def split: option.splits)
qed

lemma keys_fold_setitem:
  "acc \<noteq> [] \<Longrightarrow> hd (map fst (fold (\<lambda>(k, v) acc. dict_setitem acc k v) xs acc)) = hd (map fst acc)
     \<and> fold (\<lambda>(k, v) acc. dict_setitem acc k v) xs acc \<noteq> []"
proof (induction xs arbitrary: acc)
  case Nil
  then show ?case by simp
next
  case (Cons x xs)
  obtain k v where x: "x = (k, v)" by (cases x)
  have "hd (map fst (dict_setitem acc k v)) = hd (map fst acc)" "dict_setitem acc k v \<noteq> []"
    using Cons.prems by (cases acc; auto simp: dict_setitem_def)+
  with Cons.IH[of "dict_setitem acc k v"] show ?case by (simp add: x)
qed

lemma distinct_fold_setitem:
  "distinct (map fst acc) \<Longrightarrow> distinct (map fst (fold (\<lambda>(k, v) acc. dict_setitem acc k v) xs acc))"
proof (induction xs arbitrary: acc)
  case Nil
  then show ?case by simp
next
  case (Cons x xs)
  obtain k v where x: "x = (k, v)" by (cases x)
  have "distinct (map fst (dict_setitem acc k v))"
    using Cons.prems by (simp add: dict_setitem_def distinct_update)
  from Cons.IH[OF this] show ?case by (simp add: x)
qed

lemma dom_fold_setitem:
  "fst ` set (fold (\<lambda>(k, v) acc. dict_setitem acc k v) xs acc) = fst ` set acc \<union> fst ` set xs"
proof (induction xs arbitrary: acc)
  case Nil
  then show ?case by simp
next
  case (Cons x xs)
  obtain k v where x: "x = (k, v)" by (cases x)
  have "fst ` set (dict_setitem acc k v) = {k} \<union> fst ` set acc"
    by (simp add: dict_setitem_def dom_update)
  then show ?case by (auto simp: x Cons.IH)
qed

section \<open>The migration: what one run does\<close>

lemma migrate_noop:
  "\<not> needs_migration c entry \<Longrightarrow>
   async_migrate_options_from_data_if_missing c hass entry = (hass, entry)"
  by (simp add: async_migrate_options_from_data_if_missing_def needs_migration_def Let_def)

lemma pop_flag:
  "dict_pop_default (data entry) (CONF_READ_ONLY c) (PyBool False) =
     (flag_in_data c entry, AList.delete (CONF_READ_ONLY c) (data entry))"
proof (cases "map_of (data entry) (CONF_READ_ONLY c)")
  case None
  then have "CONF_READ_ONLY c \<notin> fst ` set (data entry)"
    by (simp add: map_of_eq_None_iff)
  then have "AList.delete (CONF_READ_ONLY c) (data entry) = data entry"
    by simp
  with None show ?thesis
    by (simp add: dict_pop_default_def flag_in_data_def)
next
  case (Some v)
  then show ?thesis
    by (simp add: dict_pop_default_def flag_in_data_def)
qed

lemma migrate_update:
  "needs_migration c entry \<Longrightarrow>
   async_migrate_options_from_data_if_missing c hass entry =
     (hass\<lparr>entry_updates := entry_updates hass @ [entry_id entry]\<rparr>,
      entry\<lparr>data := AList.delete (CONF_READ_ONLY c) (data entry),
            options := dict_setitem (dict_merge (DEFAULT_OPTIONS c) (options entry))
                         (CONF_READ_ONLY c) (flag_in_data c entry)\<rparr>)"
  unfolding async_migrate_options_from_data_if_missing_def needs_migration_def Let_def
  by (simp add: pop_flag async_update_entry_def)

lemma merge_default_shape:
  "\<exists>x rest. dict_merge (DEFAULT_OPTIONS c) opts = (CONF_READ_ONLY c, x) # rest"
proof -
  let ?m = "dict_merge (DEFAULT_OPTIONS c) opts"
  have "hd (map fst ?m) = CONF_READ_ONLY c" and ne: "?m \<noteq> []"
    using keys_fold_setitem[of "DEFAULT_OPTIONS c" opts]
    by (simp_all add: dict_merge_def DEFAULT_OPTIONS_def)
  then show ?thesis by (cases ?m) auto
qed

lemma insert_eq_diff:
  assumes "insert a A = insert a B" and "a \<notin> A"
  shows "A = B - {a}"
proof -
  from assms(2) have "A = insert a A - {a}" by simp
  also have "\<dots> = insert a B - {a}" by (simp only: assms(1))
  also have "\<dots> = B - {a}" by simp
  finally show ?thesis .
qed

lemma dom_dict_merge:
  "fst ` set (dict_merge base kw) = fst ` set base \<union> fst ` set kw"
  unfolding dict_merge_def by (rule dom_fold_setitem)

lemma distinct_dict_merge:
  "distinct (map fst base) \<Longrightarrow> distinct (map fst (dict_merge base kw))"
  unfolding dict_merge_def by (rule distinct_fold_setitem)

lemma migrated_options_shape:
  "\<exists>rest. dict_setitem (dict_merge (DEFAULT_OPTIONS c) opts) (CONF_READ_ONLY c) v
             = (CONF_READ_ONLY c, v) # rest
         \<and> distinct (CONF_READ_ONLY c # map fst rest)
         \<and> fst ` set rest = fst ` set opts - {CONF_READ_ONLY c}"
proof -
  obtain x rest where m: "dict_merge (DEFAULT_OPTIONS c) opts = (CONF_READ_ONLY c, x) # rest"
    using merge_default_shape by blast
  have "distinct (map fst (dict_merge (DEFAULT_OPTIONS c) opts))"
    by (rule distinct_dict_merge) (simp add: DEFAULT_OPTIONS_def)
  then have d: "distinct (CONF_READ_ONLY c # map fst rest)" by (simp add: m)
  have "fst ` set ((CONF_READ_ONLY c, x) # rest) = fst ` set (DEFAULT_OPTIONS c) \<union> fst ` set opts"
    using dom_dict_merge[of "DEFAULT_OPTIONS c" opts] by (simp only: m)
  then have "insert (CONF_READ_ONLY c) (fst ` set rest) = insert (CONF_READ_ONLY c) (fst ` set opts)"
    by (simp add: DEFAULT_OPTIONS_def)
  moreover from d have "CONF_READ_ONLY c \<notin> fst ` set rest" by simp
  ultimately have r: "fst ` set rest = fst ` set opts - {CONF_READ_ONLY c}"
    by (rule insert_eq_diff)
  have "dict_setitem ((CONF_READ_ONLY c, x) # rest) (CONF_READ_ONLY c) v = (CONF_READ_ONLY c, v) # rest"
    by (simp add: dict_setitem_def)
  with d r show ?thesis by (simp only: m) blast
qed

lemma map_of_dict_merge:
  "distinct (map fst kw) \<Longrightarrow> map_of (dict_merge base kw) = map_of base ++ map_of kw"
  unfolding dict_merge_def by (rule map_of_fold_setitem)

lemma keys_default: "keys (DEFAULT_OPTIONS c) = [CONF_READ_ONLY c]"
  by (simp add: keys_def DEFAULT_OPTIONS_def)

lemma setitem_same_iff: "dict_setitem d k x = d \<longleftrightarrow> map_of d k = Some x"
proof
  assume "dict_setitem d k x = d"
  then have "map_of d k = map_of (AList.update k x d) k" by (simp add: dict_setitem_def)
  then show "map_of d k = Some x" by (simp add: update_conv')
next
  assume "map_of d k = Some x"
  then show "dict_setitem d k x = d" by (simp add: dict_setitem_def update_triv)
qed

lemma migrated_flag_lookup:
  "needs_migration c entry \<Longrightarrow>
   map_of (options (snd (async_migrate_options_from_data_if_missing c hass entry))) (CONF_READ_ONLY c)
     = Some (flag_in_data c entry)"
  by (simp add: migrate_update dict_setitem_def update_conv')

lemma migrated_data_lookup:
  "map_of (data (snd (async_migrate_options_from_data_if_missing c hass entry))) k
     = (if k = CONF_READ_ONLY c then None else map_of (data entry) k)"
proof (cases "needs_migration c entry")
  case True
  then show ?thesis by (simp add: migrate_update delete_conv')
next
  case False
  then have "map_of (data entry) (CONF_READ_ONLY c) = None"
    by (simp add: needs_migration_def dict_contains_def)
  with False show ?thesis by (simp add: migrate_noop)
qed

lemma migration_twice_aux:
  assumes first: "async_migrate_options_from_data_if_missing c hass entry = (hass1, once)"
    and second: "async_migrate_options_from_data_if_missing c hass1 once = (hass2, twice)"
  shows "data twice = data once \<and> options twice =
          (if set (keys (options entry)) \<subseteq> {CONF_READ_ONLY c} then options once
           else dict_setitem (options once) (CONF_READ_ONLY c) (PyBool False))
       \<and> (set (keys (options entry)) \<subseteq> {CONF_READ_ONLY c} \<longrightarrow> hass2 = hass1 \<and> twice = once)"
proof (cases "needs_migration c entry")
  case False
  then have o: "once = entry" using first by (simp add: migrate_noop)
  from False have "keys (options entry) = [CONF_READ_ONLY c]"
    by (simp add: needs_migration_def keys_default)
  then have "set (keys (options entry)) \<subseteq> {CONF_READ_ONLY c}" by simp
  with False show ?thesis using second by (simp add: o migrate_noop)
next
  case True
  let ?ro = "CONF_READ_ONLY c"
  let ?v = "flag_in_data c entry"
  obtain rest where shape: "dict_setitem (dict_merge (DEFAULT_OPTIONS c) (options entry)) ?ro ?v
       = (?ro, ?v) # rest"
    and d: "distinct (?ro # map fst rest)"
    and r: "fst ` set rest = fst ` set (options entry) - {?ro}"
    using migrated_options_shape[of c "options entry" ?v] by blast
  have o: "once = entry\<lparr>data := AList.delete ?ro (data entry), options := (?ro, ?v) # rest\<rparr>"
    using True first by (simp add: migrate_update shape)
  have nodata: "map_of (data once) ?ro = None" by (simp add: o delete_conv')
  have sub: "set (keys (options entry)) \<subseteq> {?ro} \<longleftrightarrow> rest = []"
  proof
    assume "set (keys (options entry)) \<subseteq> {?ro}"
    then have "fst ` set rest = {}" using r by (auto simp: keys_def)
    then show "rest = []" by simp
  next
    assume "rest = []"
    then show "set (keys (options entry)) \<subseteq> {?ro}" using r by (auto simp: keys_def)
  qed
  have need: "needs_migration c once \<longleftrightarrow> rest \<noteq> []"
    using nodata by (simp add: needs_migration_def dict_contains_def o keys_def DEFAULT_OPTIONS_def)
  show ?thesis
  proof (cases "rest = []")
    case True
    with need sub second show ?thesis by (simp add: migrate_noop)
  next
    case False
    have "dict_merge (DEFAULT_OPTIONS c) ((?ro, ?v) # rest)
          = fold (\<lambda>(k, v) acc. dict_setitem acc k v) rest [(?ro, ?v)]"
      by (simp add: dict_merge_def DEFAULT_OPTIONS_def dict_setitem_def)
    also have "\<dots> = [(?ro, ?v)] @ rest"
      by (rule fold_setitem_append) (use d in simp)
    finally have m: "dict_merge (DEFAULT_OPTIONS c) (options once) = options once"
      by (simp add: o)
    have f: "flag_in_data c once = PyBool False"
      using nodata by (simp add: flag_in_data_def)
    have "AList.delete ?ro (data once) = data once"
      using nodata by (simp add: map_of_eq_None_iff)
    with False need sub m f second show ?thesis
      by (auto simp: migrate_update)
  qed
qed


section \<open>The migration: the claims\<close>

text \<open>
  Claim C1, as the code has it.  After the migration the flag is never in \<open>entry.data\<close> and
  always in \<open>entry.options\<close>.  When the guard of the migration holds (the flag is in the data,
  or the key list of the options is not that of \<open>DEFAULT_OPTIONS\<close>), the option is the value
  the flag had in the data, \<open>False\<close> when it was absent.  When the guard does not hold, the
  migration changes nothing, neither the entry nor the host: the option keeps the value it
  had.
\<close>

theorem migration_flag_only_moved_when_needed:
  "map_of (data (snd (async_migrate_options_from_data_if_missing c hass entry))) (CONF_READ_ONLY c) = None
   \<and> map_of (options (snd (async_migrate_options_from_data_if_missing c hass entry))) (CONF_READ_ONLY c)
       = (if needs_migration c entry then Some (flag_in_data c entry)
          else map_of (options entry) (CONF_READ_ONLY c))
   \<and> map_of (options (snd (async_migrate_options_from_data_if_missing c hass entry))) (CONF_READ_ONLY c)
       \<noteq> None
   \<and> (\<not> needs_migration c entry \<longrightarrow>
         async_migrate_options_from_data_if_missing c hass entry = (hass, entry))"
proof (cases "needs_migration c entry")
  case True
  then show ?thesis
    by (simp add: migrated_data_lookup migrated_flag_lookup)
next
  case False
  then have "map fst (options entry) = [CONF_READ_ONLY c]"
    by (simp add: needs_migration_def keys_def DEFAULT_OPTIONS_def)
  then have "map_of (options entry) (CONF_READ_ONLY c) \<noteq> None"
    by (cases "options entry") auto
  moreover have "map_of (data (snd (async_migrate_options_from_data_if_missing c hass entry)))
      (CONF_READ_ONLY c) = None"
    by (simp add: migrated_data_lookup)
  ultimately show ?thesis using False
    by (simp add: migrate_noop)
qed

theorem migration_flag_only_moved_when_needed_witness:
  "needs_migration sample_const legacy_entry
   \<and> map_of (data (snd (async_migrate_options_from_data_if_missing sample_const fresh_hass legacy_entry)))
        ''read_only'' = None
   \<and> map_of (options (snd (async_migrate_options_from_data_if_missing sample_const fresh_hass legacy_entry)))
        ''read_only'' = Some (PyBool True)
   \<and> \<not> needs_migration sample_const migrated_entry
   \<and> async_migrate_options_from_data_if_missing sample_const fresh_hass migrated_entry
        = (fresh_hass, migrated_entry)"
proof -
  have n: "needs_migration sample_const legacy_entry"
    by (simp add: needs_migration_def sample_const_def legacy_entry_def dict_contains_def)
  have f: "flag_in_data sample_const legacy_entry = PyBool True"
    by (simp add: flag_in_data_def sample_const_def legacy_entry_def)
  have r: "CONF_READ_ONLY sample_const = ''read_only''"
    by (simp add: sample_const_def)
  have m: "\<not> needs_migration sample_const migrated_entry"
    by (simp add: needs_migration_def sample_const_def migrated_entry_def dict_contains_def
        keys_def DEFAULT_OPTIONS_def)
  show ?thesis
    using migration_flag_only_moved_when_needed [of sample_const fresh_hass legacy_entry]
      migration_flag_only_moved_when_needed [of sample_const fresh_hass migrated_entry] n f r m
    by simp
qed

text \<open>
  An entry that was migrated before, with the option switched on: the flag is absent from the
  data, and the option is still \<open>True\<close> after the migration, not \<open>False\<close>.
\<close>

theorem migrated_flag_kept_counterexample:
  "map_of (data migrated_entry) (CONF_READ_ONLY sample_const) = None
   \<and> map_of (options (snd (async_migrate_options_from_data_if_missing
        sample_const fresh_hass migrated_entry))) (CONF_READ_ONLY sample_const)
      = Some (PyBool True)"
  by (simp add: async_migrate_options_from_data_if_missing_def sample_const_def migrated_entry_def
      dict_contains_def keys_def DEFAULT_OPTIONS_def)

text \<open>
  Claim C9.  The migration leaves every key of \<open>entry.data\<close> other than \<open>CONF_READ_ONLY\<close>, and
  every entry of \<open>entry.options\<close> other than \<open>CONF_READ_ONLY\<close>, as it was; the entry's id and
  its unload callbacks are untouched as well.
\<close>

theorem migration_frame:
  assumes "k \<noteq> CONF_READ_ONLY c" and "distinct (keys (options entry))"
  shows "map_of (data (snd (async_migrate_options_from_data_if_missing c hass entry))) k
           = map_of (data entry) k
       \<and> map_of (options (snd (async_migrate_options_from_data_if_missing c hass entry))) k
           = map_of (options entry) k
       \<and> entry_id (snd (async_migrate_options_from_data_if_missing c hass entry)) = entry_id entry
       \<and> on_unload (snd (async_migrate_options_from_data_if_missing c hass entry)) = on_unload entry"
proof (cases "needs_migration c entry")
  case True
  from assms(2) have "map_of (dict_merge (DEFAULT_OPTIONS c) (options entry)) k
      = (map_of (DEFAULT_OPTIONS c) ++ map_of (options entry)) k"
    by (simp add: map_of_dict_merge keys_def)
  also have "\<dots> = map_of (options entry) k"
    using assms(1) by (simp add: DEFAULT_OPTIONS_def map_add_def split: option.splits)
  finally show ?thesis
    using True assms(1) by (simp add: migrate_update dict_setitem_def update_conv')
next
  case False
  then show ?thesis by (simp add: migrate_noop)
qed

theorem migration_frame_witness:
  "''username'' \<noteq> CONF_READ_ONLY sample_const
   \<and> distinct (keys (options extra_option_entry))
   \<and> map_of (data (snd (async_migrate_options_from_data_if_missing
        sample_const fresh_hass extra_option_entry))) ''username'' = Some (PyStr ''rider'')
   \<and> map_of (options (snd (async_migrate_options_from_data_if_missing
        sample_const fresh_hass extra_option_entry))) ''scan_interval'' = Some (PyInt 30)"
proof -
  have a: "''username'' \<noteq> CONF_READ_ONLY sample_const"
    and a': "''scan_interval'' \<noteq> CONF_READ_ONLY sample_const"
    by (simp_all add: sample_const_def)
  have b: "distinct (keys (options extra_option_entry))"
    by (simp add: keys_def extra_option_entry_def)
  show ?thesis
    using migration_frame [OF a b, of fresh_hass] migration_frame [OF a' b, of fresh_hass] a b
    by (simp add: extra_option_entry_def)
qed

text \<open>
  Claim C8, as the code has it.  A second run of the migration right after a first one never
  changes \<open>entry.data\<close>.  It leaves \<open>entry.options\<close> as the first run left them exactly when
  the options of the entry held no key other than \<open>CONF_READ_ONLY\<close> or the flag moved by the
  first run is \<open>False\<close>; otherwise it sets the option back to \<open>False\<close>.  When the options held
  no other key, the second run does not update the entry at all; and a run on an entry
  without the flag in its data and with the key list of \<open>DEFAULT_OPTIONS\<close> in its options
  performs no update.
\<close>

theorem migration_second_run:
  assumes "async_migrate_options_from_data_if_missing c hass entry = (hass1, once)"
    and "async_migrate_options_from_data_if_missing c hass1 once = (hass2, twice)"
  shows "data twice = data once
     \<and> options twice =
         (if set (keys (options entry)) \<subseteq> {CONF_READ_ONLY c} then options once
          else dict_setitem (options once) (CONF_READ_ONLY c) (PyBool False))
     \<and> (options twice = options once \<longleftrightarrow>
          set (keys (options entry)) \<subseteq> {CONF_READ_ONLY c} \<or> flag_in_data c entry = PyBool False)
     \<and> (set (keys (options entry)) \<subseteq> {CONF_READ_ONLY c} \<longrightarrow> hass2 = hass1 \<and> twice = once)
     \<and> (\<not> dict_contains (CONF_READ_ONLY c) (data entry)
          \<and> keys (options entry) = keys (DEFAULT_OPTIONS c) \<longrightarrow> hass1 = hass \<and> once = entry)"
proof -
  note aux = migration_twice_aux [OF assms]
  have iff: "options twice = options once \<longleftrightarrow>
      set (keys (options entry)) \<subseteq> {CONF_READ_ONLY c} \<or> flag_in_data c entry = PyBool False"
  proof (cases "set (keys (options entry)) \<subseteq> {CONF_READ_ONLY c}")
    case True
    with aux show ?thesis by simp
  next
    case False
    then have "keys (options entry) \<noteq> keys (DEFAULT_OPTIONS c)"
      by (auto simp: keys_default)
    then have "needs_migration c entry" by (simp add: needs_migration_def)
    from migrated_flag_lookup [OF this, of hass] assms(1)
    have "map_of (options once) (CONF_READ_ONLY c) = Some (flag_in_data c entry)" by simp
    then have "dict_setitem (options once) (CONF_READ_ONLY c) (PyBool False) = options once
        \<longleftrightarrow> flag_in_data c entry = PyBool False"
      by (simp add: setitem_same_iff)
    with False aux show ?thesis by simp
  qed
  have noop: "\<not> dict_contains (CONF_READ_ONLY c) (data entry)
      \<and> keys (options entry) = keys (DEFAULT_OPTIONS c) \<longrightarrow> hass1 = hass \<and> once = entry"
    using assms(1) by (auto simp: migrate_noop needs_migration_def)
  from aux iff noop show ?thesis by blast
qed

theorem migration_second_run_witness:
  "async_migrate_options_from_data_if_missing sample_const fresh_hass legacy_entry
     = (fresh_hass\<lparr>entry_updates := [''e2'']\<rparr>,
        legacy_entry\<lparr>data := [(''username'', PyStr ''rider''), (''password'', PyStr ''secret'')],
                     options := [(''read_only'', PyBool True)]\<rparr>)
   \<and> async_migrate_options_from_data_if_missing sample_const
        (fresh_hass\<lparr>entry_updates := [''e2'']\<rparr>)
        (legacy_entry\<lparr>data := [(''username'', PyStr ''rider''), (''password'', PyStr ''secret'')],
                     options := [(''read_only'', PyBool True)]\<rparr>)
     = (fresh_hass\<lparr>entry_updates := [''e2'']\<rparr>,
        legacy_entry\<lparr>data := [(''username'', PyStr ''rider''), (''password'', PyStr ''secret'')],
                     options := [(''read_only'', PyBool True)]\<rparr>)
   \<and> set (keys (options legacy_entry)) \<subseteq> {CONF_READ_ONLY sample_const}"
proof -
  let ?h = "fresh_hass\<lparr>entry_updates := [''e2'']\<rparr>"
  let ?e = "legacy_entry\<lparr>data := [(''username'', PyStr ''rider''), (''password'', PyStr ''secret'')],
                     options := [(''read_only'', PyBool True)]\<rparr>"
  have a: "async_migrate_options_from_data_if_missing sample_const fresh_hass legacy_entry = (?h, ?e)"
    by (simp add: async_migrate_options_from_data_if_missing_def sample_const_def legacy_entry_def
        fresh_hass_def dict_contains_def keys_def DEFAULT_OPTIONS_def dict_merge_def
        dict_pop_default_def dict_setitem_def async_update_entry_def)
  obtain h2 e2 where b: "async_migrate_options_from_data_if_missing sample_const ?h ?e = (h2, e2)"
    by (cases "async_migrate_options_from_data_if_missing sample_const ?h ?e")
  have s: "set (keys (options legacy_entry)) \<subseteq> {CONF_READ_ONLY sample_const}"
    by (simp add: legacy_entry_def keys_def)
  from migration_second_run [OF a b] s have "h2 = ?h \<and> e2 = ?e" by blast
  with a b s show ?thesis by simp
qed

text \<open>
  An entry of the old shape whose options hold another key: the first run moves the flag
  \<open>True\<close> into the options, the second run overwrites it with \<open>False\<close>.
\<close>

theorem migration_second_run_counterexample:
  "options (snd (async_migrate_options_from_data_if_missing sample_const
      (fst (async_migrate_options_from_data_if_missing sample_const fresh_hass extra_option_entry))
      (snd (async_migrate_options_from_data_if_missing sample_const fresh_hass extra_option_entry))))
     = [(''read_only'', PyBool False), (''scan_interval'', PyInt 30)]
   \<and> options (snd (async_migrate_options_from_data_if_missing sample_const fresh_hass extra_option_entry))
     = [(''read_only'', PyBool True), (''scan_interval'', PyInt 30)]"
  by (simp add: async_migrate_options_from_data_if_missing_def sample_const_def extra_option_entry_def
        fresh_hass_def dict_contains_def keys_def DEFAULT_OPTIONS_def dict_merge_def
        dict_pop_default_def dict_setitem_def async_update_entry_def)

section \<open>Setup, unload and events: what one call does\<close>

lemma heap_update_new:
  "heap_update (length xs) f (xs @ y # ys) = xs @ f y # ys"
  by (simp add: heap_update_def)

lemma migrate_hass:
  "fst (async_migrate_options_from_data_if_missing c hass entry) =
     (if needs_migration c entry then hass\<lparr>entry_updates := entry_updates hass @ [entry_id entry]\<rparr>
      else hass)"
  by (simp add: migrate_update migrate_noop)

lemma migrate_entry_id:
  "entry_id (snd (async_migrate_options_from_data_if_missing c hass entry)) = entry_id entry"
  by (cases "needs_migration c entry") (simp_all add: migrate_update migrate_noop)

lemma migrate_on_unload:
  "on_unload (snd (async_migrate_options_from_data_if_missing c hass entry)) = on_unload entry"
  by (cases "needs_migration c entry") (simp_all add: migrate_update migrate_noop)

lemma setup_unfold:
  assumes m: "async_migrate_options_from_data_if_missing c hass0 entry0 = (hass1, entry)"
  shows "async_setup_entry c refresh_ok hass0 entry0 =
    (case map_of (data entry) CONF_USERNAME of
       None \<Rightarrow> (Inl (KeyError CONF_USERNAME), hass1, entry)
     | Some u \<Rightarrow>
      (case map_of (data entry) CONF_PASSWORD of
         None \<Rightarrow> (Inl (KeyError CONF_PASSWORD), hass1, entry)
       | Some p \<Rightarrow>
         let hass5 = hass1\<lparr>
               accounts := accounts hass1 @
                 [\<lparr>username = u, password = p, session = clientsession hass1\<rparr>],
               coordinators := coordinators hass1 @
                 [\<lparr>coordinator_class = DeviceDataUpdateCoordinator, account = length (accounts hass1),
                   config_entry = entry_id entry, background_task = False\<rparr>,
                  \<lparr>coordinator_class = TripDataUpdateCoordinator, account = length (accounts hass1),
                   config_entry = entry_id entry, background_task = False\<rparr>,
                  \<lparr>coordinator_class = SubscriptionDataUpdateCoordinator,
                   account = length (accounts hass1),
                   config_entry = entry_id entry, background_task = False\<rparr>]\<rparr>
         in if \<not> (refresh_ok DeviceDataUpdateCoordinator \<and> refresh_ok TripDataUpdateCoordinator
                  \<and> refresh_ok SubscriptionDataUpdateCoordinator)
            then (Inl ConfigEntryNotReady, hass5, entry)
            else
             (Inr True,
              hass1\<lparr>
               accounts := accounts hass1 @
                 [\<lparr>username = u, password = p, session = clientsession hass1\<rparr>],
               coordinators := coordinators hass1 @
                 [\<lparr>coordinator_class = DeviceDataUpdateCoordinator, account = length (accounts hass1),
                   config_entry = entry_id entry, background_task = True\<rparr>,
                  \<lparr>coordinator_class = TripDataUpdateCoordinator, account = length (accounts hass1),
                   config_entry = entry_id entry, background_task = False\<rparr>,
                  \<lparr>coordinator_class = SubscriptionDataUpdateCoordinator,
                   account = length (accounts hass1),
                   config_entry = entry_id entry, background_task = False\<rparr>],
               hass_data :=
                 dict_setitem (dict_setdefault (hass_data hass1) (DOMAIN c) []) (DOMAIN c)
                   (dict_setitem
                     (case map_of (dict_setdefault (hass_data hass1) (DOMAIN c) []) (DOMAIN c) of
                        None \<Rightarrow> [] | Some dd \<Rightarrow> dd)
                     (entry_id entry)
                     (dict_setitem (dict_setitem (dict_setitem []
                        (DATA_DEVICE c) (length (coordinators hass1)))
                        (DATA_TRIP c) (Suc (length (coordinators hass1))))
                        (DATA_SUBSCRIPTION c) (Suc (Suc (length (coordinators hass1)))))),
               bus_listeners := bus_listeners hass1 @
                 [(next_listener hass1, EVENT_HOMEASSISTANT_STOP, Stop (length (coordinators hass1)))],
               next_listener := Suc (next_listener hass1),
               forwarded_platforms := forwarded_platforms hass1 @
                 map (\<lambda>p. (entry_id entry, p)) PLATFORMS\<rparr>,
              entry\<lparr>on_unload := on_unload entry @ [RemoveListener (next_listener hass1)]\<rparr>)))"
  unfolding async_setup_entry_def m
  by (simp add: Let_def new_Account_def new_coordinator_def async_get_clientsession_def
      async_config_entry_first_refresh_def start_background_task_def async_listen_once_def
      async_on_unload_def async_setup_platforms_def heap_update_new
      split: option.splits)

lemma same_objects_refl: "same_objects h h"
  by (simp add: same_objects_def)

lemma same_objects_trans: "same_objects h h' \<Longrightarrow> same_objects h' h'' \<Longrightarrow> same_objects h h''"
  by (auto simp: same_objects_def)

lemma same_objects_append:
  "coordinators h' = coordinators h @ new \<Longrightarrow> same_objects h h'"
  by (simp add: same_objects_def nth_append)

lemma same_objects_flag:
  "coordinators h' = heap_update r (\<lambda>co. co\<lparr>background_task := b\<rparr>) (coordinators h)
   \<Longrightarrow> same_objects h h'"
  by (auto simp: same_objects_def heap_update_def nth_list_update)

lemma same_objects_eq: "coordinators h' = coordinators h \<Longrightarrow> same_objects h h'"
  by (simp add: same_objects_def)

lemma coordinator_mapping_mono:
  assumes "coordinator_mapping c h eid m" and "same_objects h h'"
  shows "coordinator_mapping c h' eid m"
proof -
  from assms(1) have k: "keys m = [DATA_DEVICE c, DATA_TRIP c, DATA_SUBSCRIPTION c]"
    and v: "\<forall>(k, r) \<in> set m. r < length (coordinators h) \<and> config_entry (coordinators h ! r) = eid"
    and cl: "map (\<lambda>(k, r). coordinator_class (coordinators h ! r)) m
         = [DeviceDataUpdateCoordinator, TripDataUpdateCoordinator,
            SubscriptionDataUpdateCoordinator]"
    by (auto simp: coordinator_mapping_def list_all_iff)
  have v': "\<forall>(k, r) \<in> set m. r < length (coordinators h') \<and> config_entry (coordinators h' ! r) = eid"
    using v assms(2) by (fastforce simp: same_objects_def)
  have "map (\<lambda>(k, r). coordinator_class (coordinators h' ! r)) m
      = map (\<lambda>(k, r). coordinator_class (coordinators h ! r)) m"
    using v assms(2) by (auto simp: same_objects_def)
  with k v' cl show ?thesis
    by (auto simp: coordinator_mapping_def list_all_iff)
qed

lemma run_callback_fields:
  "hass_data (run_callback h cb) = hass_data h"
  "accounts (run_callback h cb) = accounts h"
  "forwarded_platforms (run_callback h cb) = forwarded_platforms h"
  "entry_updates (run_callback h cb) = entry_updates h"
  "length (coordinators (run_callback h cb)) = length (coordinators h)"
  by (cases cb; simp add: stop_background_task_def heap_update_def)+

lemma run_callback_same: "same_objects h (run_callback h cb)"
  by (cases cb) (auto intro: same_objects_flag same_objects_eq simp: stop_background_task_def)

lemma run_callback_running:
  "task_running (run_callback h cb) r \<longleftrightarrow> task_running h r \<and> cb \<noteq> Stop r"
  by (cases cb) (auto simp: task_running_def stop_background_task_def heap_update_def nth_list_update)

lemma fold_callbacks:
  "hass_data (fold (\<lambda>(_, _, l) h. run_callback h l) ls h) = hass_data h
   \<and> accounts (fold (\<lambda>(_, _, l) h. run_callback h l) ls h) = accounts h
   \<and> forwarded_platforms (fold (\<lambda>(_, _, l) h. run_callback h l) ls h) = forwarded_platforms h
   \<and> entry_updates (fold (\<lambda>(_, _, l) h. run_callback h l) ls h) = entry_updates h
   \<and> same_objects h (fold (\<lambda>(_, _, l) h. run_callback h l) ls h)
   \<and> (task_running (fold (\<lambda>(_, _, l) h. run_callback h l) ls h) r
        \<longleftrightarrow> task_running h r \<and> Stop r \<notin> (snd \<circ> snd) ` set ls)"
proof (induction ls arbitrary: h)
  case Nil
  show ?case by (simp add: same_objects_refl)
next
  case (Cons x ls)
  obtain i e l where x: "x = (i, e, l)" by (cases x)
  have "same_objects h (run_callback h l)" by (rule run_callback_same)
  moreover have "same_objects (run_callback h l)
       (fold (\<lambda>(_, _, l) h. run_callback h l) ls (run_callback h l))"
    using Cons.IH [of "run_callback h l"] by simp
  ultimately have "same_objects h (fold (\<lambda>(_, _, l) h. run_callback h l) ls (run_callback h l))"
    by (rule same_objects_trans)
  then show ?case
    using Cons.IH [of "run_callback h l"]
    by (auto simp: x run_callback_fields run_callback_running)
qed

lemma async_fire_frame:
  "hass_data (async_fire h ev) = hass_data h"
  "accounts (async_fire h ev) = accounts h"
  "forwarded_platforms (async_fire h ev) = forwarded_platforms h"
  "entry_updates (async_fire h ev) = entry_updates h"
  "same_objects h (async_fire h ev)"
proof -
  let ?h1 = "h\<lparr>bus_listeners := filter (\<lambda>(_, e, _). e \<noteq> ev) (bus_listeners h)\<rparr>"
  let ?ls = "filter (\<lambda>(_, e, _). e = ev) (bus_listeners h)"
  note f = fold_callbacks [of ?ls ?h1]
  have s: "same_objects h ?h1" by (simp add: same_objects_def)
  show "hass_data (async_fire h ev) = hass_data h" using f by (simp add: async_fire_def Let_def)
  show "accounts (async_fire h ev) = accounts h" using f by (simp add: async_fire_def Let_def)
  show "forwarded_platforms (async_fire h ev) = forwarded_platforms h"
    using f by (simp add: async_fire_def Let_def)
  show "entry_updates (async_fire h ev) = entry_updates h"
    using f by (simp add: async_fire_def Let_def)
  from f have "same_objects ?h1 (async_fire h ev)" by (simp add: async_fire_def Let_def)
  with s show "same_objects h (async_fire h ev)" by (rule same_objects_trans)
qed


lemma entry_data_stored:
  assumes "hass_data h = dict_setitem (dict_setdefault d0 (DOMAIN c) []) (DOMAIN c)
         (dict_setitem
            (case map_of (dict_setdefault d0 (DOMAIN c) []) (DOMAIN c) of
               None \<Rightarrow> [] | Some dd \<Rightarrow> dd) eid m)"
  shows "entry_data c h eid'
   = (if eid' = eid then Some m
      else (case map_of d0 (DOMAIN c) of None \<Rightarrow> None | Some dd \<Rightarrow> map_of dd eid'))"
  unfolding entry_data_def assms
  by (auto simp: dict_setitem_def dict_setdefault_def dict_contains_def update_conv'
      split: option.splits)

lemma setup_success:
  assumes "async_setup_entry c refresh_ok hass entry = (Inr ok, hass', entry')"
  shows "ok"
    and "\<exists>u p. map_of (data entry) CONF_USERNAME = Some u
           \<and> map_of (data entry) CONF_PASSWORD = Some p
           \<and> accounts hass' = accounts hass @
                [\<lparr>username = u, password = p, session = clientsession hass\<rparr>]"
    and "coordinators hass' = coordinators hass @
           [\<lparr>coordinator_class = DeviceDataUpdateCoordinator, account = length (accounts hass),
             config_entry = entry_id entry, background_task = True\<rparr>,
            \<lparr>coordinator_class = TripDataUpdateCoordinator, account = length (accounts hass),
             config_entry = entry_id entry, background_task = False\<rparr>,
            \<lparr>coordinator_class = SubscriptionDataUpdateCoordinator, account = length (accounts hass),
             config_entry = entry_id entry, background_task = False\<rparr>]"
    and "entry_data c hass' eid =
           (if eid = entry_id entry then Some (new_mapping c hass) else entry_data c hass eid)"
    and "map_of (hass_data hass') (DOMAIN c) \<noteq> None"
    and "bus_listeners hass' = bus_listeners hass @
           [(next_listener hass, EVENT_HOMEASSISTANT_STOP, Stop (length (coordinators hass)))]"
    and "forwarded_platforms hass' = forwarded_platforms hass @ map (\<lambda>p. (entry_id entry, p)) PLATFORMS"
    and "entry_id entry' = entry_id entry"
    and "refresh_ok DeviceDataUpdateCoordinator \<and> refresh_ok TripDataUpdateCoordinator
           \<and> refresh_ok SubscriptionDataUpdateCoordinator"
    and "hass_data hass' = dict_setitem (dict_setdefault (hass_data hass) (DOMAIN c) []) (DOMAIN c)
         (dict_setitem
            (case map_of (dict_setdefault (hass_data hass) (DOMAIN c) []) (DOMAIN c) of
               None \<Rightarrow> [] | Some dd \<Rightarrow> dd) (entry_id entry) (new_mapping c hass))"
proof -
  obtain hass1 entry1 where m: "async_migrate_options_from_data_if_missing c hass entry = (hass1, entry1)"
    by (cases "async_migrate_options_from_data_if_missing c hass entry")
  have h1: "hass1 = fst (async_migrate_options_from_data_if_missing c hass entry)"
    and e1: "entry1 = snd (async_migrate_options_from_data_if_missing c hass entry)"
    by (simp_all add: m)
  have same: "accounts hass1 = accounts hass" "coordinators hass1 = coordinators hass"
    "hass_data hass1 = hass_data hass" "bus_listeners hass1 = bus_listeners hass"
    "next_listener hass1 = next_listener hass" "forwarded_platforms hass1 = forwarded_platforms hass"
    "clientsession hass1 = clientsession hass"
    by (simp_all add: h1 migrate_hass)
  have id1: "entry_id entry1 = entry_id entry" by (simp add: e1 migrate_entry_id)
  have look: "\<And>k v. map_of (data entry1) k = Some v \<Longrightarrow> map_of (data entry) k = Some v"
    by (simp add: e1 migrated_data_lookup split: if_splits)
  note u = assms [unfolded setup_unfold [OF m]]
  from u obtain usr where usr: "map_of (data entry1) CONF_USERNAME = Some usr"
    by (cases "map_of (data entry1) CONF_USERNAME") auto
  from u usr obtain pw where pw: "map_of (data entry1) CONF_PASSWORD = Some pw"
    by (cases "map_of (data entry1) CONF_PASSWORD") auto
  from u usr pw have r: "refresh_ok DeviceDataUpdateCoordinator \<and> refresh_ok TripDataUpdateCoordinator
           \<and> refresh_ok SubscriptionDataUpdateCoordinator"
    by (auto simp: Let_def split: if_splits)
  from u usr pw r have ok: "ok" and h': "hass' = hass1\<lparr>
               accounts := accounts hass1 @
                 [\<lparr>username = usr, password = pw, session = clientsession hass1\<rparr>],
               coordinators := coordinators hass1 @
                 [\<lparr>coordinator_class = DeviceDataUpdateCoordinator, account = length (accounts hass1),
                   config_entry = entry_id entry1, background_task = True\<rparr>,
                  \<lparr>coordinator_class = TripDataUpdateCoordinator, account = length (accounts hass1),
                   config_entry = entry_id entry1, background_task = False\<rparr>,
                  \<lparr>coordinator_class = SubscriptionDataUpdateCoordinator,
                   account = length (accounts hass1),
                   config_entry = entry_id entry1, background_task = False\<rparr>],
               hass_data :=
                 dict_setitem (dict_setdefault (hass_data hass1) (DOMAIN c) []) (DOMAIN c)
                   (dict_setitem
                     (case map_of (dict_setdefault (hass_data hass1) (DOMAIN c) []) (DOMAIN c) of
                        None \<Rightarrow> [] | Some dd \<Rightarrow> dd)
                     (entry_id entry1)
                     (dict_setitem (dict_setitem (dict_setitem []
                        (DATA_DEVICE c) (length (coordinators hass1)))
                        (DATA_TRIP c) (Suc (length (coordinators hass1))))
                        (DATA_SUBSCRIPTION c) (Suc (Suc (length (coordinators hass1)))))),
               bus_listeners := bus_listeners hass1 @
                 [(next_listener hass1, EVENT_HOMEASSISTANT_STOP, Stop (length (coordinators hass1)))],
               next_listener := Suc (next_listener hass1),
               forwarded_platforms := forwarded_platforms hass1 @
                 map (\<lambda>p. (entry_id entry1, p)) PLATFORMS\<rparr>"
     and e': "entry' = entry1\<lparr>on_unload := on_unload entry1 @ [RemoveListener (next_listener hass1)]\<rparr>"
    by (simp_all add: Let_def)
  have hd: "hass_data hass' = dict_setitem (dict_setdefault (hass_data hass) (DOMAIN c) []) (DOMAIN c)
         (dict_setitem
            (case map_of (dict_setdefault (hass_data hass) (DOMAIN c) []) (DOMAIN c) of
               None \<Rightarrow> [] | Some dd \<Rightarrow> dd) (entry_id entry) (new_mapping c hass))"
    by (simp add: h' same id1 new_mapping_def)
  show "ok" by (rule ok)
  show "\<exists>u p. map_of (data entry) CONF_USERNAME = Some u
           \<and> map_of (data entry) CONF_PASSWORD = Some p
           \<and> accounts hass' = accounts hass @
                [\<lparr>username = u, password = p, session = clientsession hass\<rparr>]"
    using look [OF usr] look [OF pw] by (simp add: h' same)
  show "coordinators hass' = coordinators hass @
           [\<lparr>coordinator_class = DeviceDataUpdateCoordinator, account = length (accounts hass),
             config_entry = entry_id entry, background_task = True\<rparr>,
            \<lparr>coordinator_class = TripDataUpdateCoordinator, account = length (accounts hass),
             config_entry = entry_id entry, background_task = False\<rparr>,
            \<lparr>coordinator_class = SubscriptionDataUpdateCoordinator, account = length (accounts hass),
             config_entry = entry_id entry, background_task = False\<rparr>]"
    by (simp add: h' same id1)
  show "entry_data c hass' eid =
           (if eid = entry_id entry then Some (new_mapping c hass) else entry_data c hass eid)"
    using entry_data_stored [OF hd] by (simp add: entry_data_def)
  show "map_of (hass_data hass') (DOMAIN c) \<noteq> None"
    by (simp add: h' dict_setitem_def update_conv')
  show "bus_listeners hass' = bus_listeners hass @
           [(next_listener hass, EVENT_HOMEASSISTANT_STOP, Stop (length (coordinators hass)))]"
    by (simp add: h' same)
  show "forwarded_platforms hass' = forwarded_platforms hass @ map (\<lambda>p. (entry_id entry, p)) PLATFORMS"
    by (simp add: h' same id1)
  show "entry_id entry' = entry_id entry" by (simp add: e' id1)
  show "refresh_ok DeviceDataUpdateCoordinator \<and> refresh_ok TripDataUpdateCoordinator
           \<and> refresh_ok SubscriptionDataUpdateCoordinator" by (rule r)
  show "hass_data hass' = dict_setitem (dict_setdefault (hass_data hass) (DOMAIN c) []) (DOMAIN c)
         (dict_setitem
            (case map_of (dict_setdefault (hass_data hass) (DOMAIN c) []) (DOMAIN c) of
               None \<Rightarrow> [] | Some dd \<Rightarrow> dd) (entry_id entry) (new_mapping c hass))"
    by (rule hd)
qed

lemma setup_failure:
  assumes "async_setup_entry c refresh_ok hass entry = (Inl err, hass', entry')"
  shows "hass_data hass' = hass_data hass"
    and "bus_listeners hass' = bus_listeners hass"
    and "forwarded_platforms hass' = forwarded_platforms hass"
    and "\<exists>new. coordinators hass' = coordinators hass @ new
            \<and> (\<forall>co \<in> set new. \<not> background_task co)"
    and "\<exists>new. accounts hass' = accounts hass @ new \<and> length new \<le> 1"
proof -
  obtain hass1 entry1 where m: "async_migrate_options_from_data_if_missing c hass entry = (hass1, entry1)"
    by (cases "async_migrate_options_from_data_if_missing c hass entry")
  have h1: "hass1 = fst (async_migrate_options_from_data_if_missing c hass entry)"
    by (simp add: m)
  have same: "accounts hass1 = accounts hass" "coordinators hass1 = coordinators hass"
    "hass_data hass1 = hass_data hass" "bus_listeners hass1 = bus_listeners hass"
    "next_listener hass1 = next_listener hass" "forwarded_platforms hass1 = forwarded_platforms hass"
    by (simp_all add: h1 migrate_hass)
  note u = assms [unfolded setup_unfold [OF m]]
  from u have "hass_data hass' = hass_data hass1 \<and> bus_listeners hass' = bus_listeners hass1
    \<and> forwarded_platforms hass' = forwarded_platforms hass1
    \<and> (\<exists>new. coordinators hass' = coordinators hass1 @ new \<and> (\<forall>co \<in> set new. \<not> background_task co))
    \<and> (\<exists>new. accounts hass' = accounts hass1 @ new \<and> length new \<le> 1)"
    by (auto simp: Let_def split: option.splits if_splits)
  then show "hass_data hass' = hass_data hass"
    and "bus_listeners hass' = bus_listeners hass"
    and "forwarded_platforms hass' = forwarded_platforms hass"
    and "\<exists>new. coordinators hass' = coordinators hass @ new
            \<and> (\<forall>co \<in> set new. \<not> background_task co)"
    and "\<exists>new. accounts hass' = accounts hass @ new \<and> length new \<le> 1"
    by (simp_all add: same)
qed

lemma unload_platforms_frame:
  "fst (async_unload_platforms unloads hass entry ps) = list_all unloads ps"
  "hass_data (snd (async_unload_platforms unloads hass entry ps)) = hass_data hass"
  "coordinators (snd (async_unload_platforms unloads hass entry ps)) = coordinators hass"
  "accounts (snd (async_unload_platforms unloads hass entry ps)) = accounts hass"
  "bus_listeners (snd (async_unload_platforms unloads hass entry ps)) = bus_listeners hass"
  by (simp_all add: async_unload_platforms_def)

lemma unload_unfold:
  "async_unload_entry c unloads hass entry =
    (let hass1 = snd (async_unload_platforms unloads hass entry PLATFORMS)
     in if list_all unloads PLATFORMS then
          (case map_of (hass_data hass) (DOMAIN c) of
             None \<Rightarrow> (Inl (KeyError (DOMAIN c)), hass1)
           | Some dd \<Rightarrow>
             (case map_of dd (entry_id entry) of
                None \<Rightarrow> (Inl (KeyError (entry_id entry)), hass1)
              | Some m \<Rightarrow>
                (case map_of m (DATA_DEVICE c) of
                   None \<Rightarrow> (Inl (KeyError (DATA_DEVICE c)),
                            hass1\<lparr>hass_data := dict_setitem (hass_data hass) (DOMAIN c)
                                    (AList.delete (entry_id entry) dd)\<rparr>)
                 | Some dc \<Rightarrow> (Inr True,
                     stop_background_task
                       (hass1\<lparr>hass_data := dict_setitem (hass_data hass) (DOMAIN c)
                                 (AList.delete (entry_id entry) dd)\<rparr>) dc))))
        else (Inr False, hass1))"
  by (simp add: async_unload_entry_def unload_platforms_frame Let_def split_beta
      split: option.splits)

lemma entry_data_popped:
  assumes "hass_data h' = dict_setitem (hass_data h) (DOMAIN c) (AList.delete eid dd)"
    and "map_of (hass_data h) (DOMAIN c) = Some dd"
  shows "entry_data c h' eid' = (if eid' = eid then None else entry_data c h eid')"
  unfolding entry_data_def assms
  by (simp add: dict_setitem_def update_conv' delete_conv')

lemma entry_data_cong: "hass_data h' = hass_data h \<Longrightarrow> entry_data c h' eid = entry_data c h eid"
  by (simp add: entry_data_def)

lemma unload_platforms_failed:
  assumes "\<not> list_all unloads PLATFORMS"
  shows "async_unload_entry c unloads hass entry =
     (Inr False, snd (async_unload_platforms unloads hass entry PLATFORMS))"
  using assms by (simp add: unload_unfold)

lemma unload_platforms_ok:
  assumes "list_all unloads PLATFORMS"
    and "entry_data c hass (entry_id entry) = Some m"
    and "map_of m (DATA_DEVICE c) = Some dc"
  shows "\<exists>hass'. async_unload_entry c unloads hass entry = (Inr True, hass')
     \<and> map_of (hass_data hass') (DOMAIN c) \<noteq> None
     \<and> (\<forall>eid. entry_data c hass' eid = (if eid = entry_id entry then None else entry_data c hass eid))
     \<and> coordinators hass' = heap_update dc (\<lambda>co. co\<lparr>background_task := False\<rparr>) (coordinators hass)
     \<and> bus_listeners hass' = bus_listeners hass \<and> accounts hass' = accounts hass
     \<and> (\<exists>dd. map_of (hass_data hass) (DOMAIN c) = Some dd
           \<and> hass_data hass' = dict_setitem (hass_data hass) (DOMAIN c)
                 (AList.delete (entry_id entry) dd))"
proof -
  from assms(2) obtain dd where dd: "map_of (hass_data hass) (DOMAIN c) = Some dd"
    and m: "map_of dd (entry_id entry) = Some m"
    by (auto simp: entry_data_def split: option.splits)
  let ?h = "stop_background_task
      (snd (async_unload_platforms unloads hass entry PLATFORMS)
         \<lparr>hass_data := dict_setitem (hass_data hass) (DOMAIN c) (AList.delete (entry_id entry) dd)\<rparr>) dc"
  have r: "async_unload_entry c unloads hass entry = (Inr True, ?h)"
    using assms(1,3) dd m by (simp add: unload_unfold)
  have hd: "hass_data ?h = dict_setitem (hass_data hass) (DOMAIN c) (AList.delete (entry_id entry) dd)"
    by (simp add: stop_background_task_def)
  have fr: "coordinators ?h = heap_update dc (\<lambda>co. co\<lparr>background_task := False\<rparr>) (coordinators hass)"
      "bus_listeners ?h = bus_listeners hass \<and> accounts ?h = accounts hass"
    by (simp_all add: stop_background_task_def unload_platforms_frame)
  have "map_of (hass_data ?h) (DOMAIN c) \<noteq> None"
    by (subst hd) (simp add: dict_setitem_def update_conv')
  moreover have "\<forall>eid. entry_data c ?h eid = (if eid = entry_id entry then None else entry_data c hass eid)"
    using entry_data_popped [OF hd dd] by simp
  ultimately show ?thesis using r fr hd dd by blast
qed

lemma unload_frame:
  assumes "async_unload_entry c unloads hass entry = (r, hass')"
  shows "same_objects hass hass'
     \<and> (eid \<noteq> entry_id entry \<longrightarrow> entry_data c hass' eid = entry_data c hass eid)
     \<and> (task_running hass' x \<longrightarrow> task_running hass x)
     \<and> (r = Inr False \<longrightarrow> hass_data hass' = hass_data hass \<and> coordinators hass' = coordinators hass)
     \<and> bus_listeners hass' = bus_listeners hass"
proof -
  define h1 where "h1 = snd (async_unload_platforms unloads hass entry PLATFORMS)"
  have h1: "hass_data h1 = hass_data hass" "coordinators h1 = coordinators hass"
    "bus_listeners h1 = bus_listeners hass"
    by (simp_all add: h1_def unload_platforms_frame)
  note u = assms [unfolded unload_unfold Let_def, folded h1_def]
  have same: ?thesis if "hass' = h1"
  proof -
    have "hass_data hass' = hass_data hass" and co: "coordinators hass' = coordinators hass"
      and "bus_listeners hass' = bus_listeners hass"
      by (simp_all add: that h1)
    with entry_data_cong [of hass' hass c eid] same_objects_eq [OF co] show ?thesis
      by (simp add: task_running_def)
  qed
  show ?thesis
  proof (cases "list_all unloads PLATFORMS")
    case False
    with u have "hass' = h1" by simp
    then show ?thesis by (rule same)
  next
    case ok: True
    show ?thesis
    proof (cases "map_of (hass_data hass) (DOMAIN c)")
      case None
      with u ok have "hass' = h1" by simp
      then show ?thesis by (rule same)
    next
      case (Some dd)
      show ?thesis
      proof (cases "map_of dd (entry_id entry)")
        case None
        with u ok Some have "hass' = h1" by simp
        then show ?thesis by (rule same)
      next
        case m: (Some m)
        let ?h2 = "h1\<lparr>hass_data := dict_setitem (hass_data hass) (DOMAIN c)
                                    (AList.delete (entry_id entry) dd)\<rparr>"
        show ?thesis
        proof (cases "map_of m (DATA_DEVICE c)")
          case None
          with u ok Some m have r: "r = Inl (KeyError (DATA_DEVICE c))" and h': "hass' = ?h2"
            by simp_all
          have "hass_data hass' = dict_setitem (hass_data hass) (DOMAIN c) (AList.delete (entry_id entry) dd)"
            by (simp add: h')
          note ed = entry_data_popped [OF this Some]
          have "coordinators hass' = coordinators hass" "bus_listeners hass' = bus_listeners hass"
            by (simp_all add: h' h1)
          with ed r show ?thesis
            by (simp add: same_objects_eq task_running_def)
        next
          case dc: (Some dc)
          with u ok Some m have r: "r = Inr True" and h': "hass' = stop_background_task ?h2 dc"
            by simp_all
          have "hass_data hass' = dict_setitem (hass_data hass) (DOMAIN c) (AList.delete (entry_id entry) dd)"
            by (simp add: h' stop_background_task_def)
          note ed = entry_data_popped [OF this Some]
          have co: "coordinators hass' = heap_update dc (\<lambda>co. co\<lparr>background_task := False\<rparr>) (coordinators hass)"
            and bl: "bus_listeners hass' = bus_listeners hass"
            by (simp_all add: h' stop_background_task_def h1)
          have "task_running hass' x \<longrightarrow> task_running hass x"
            by (auto simp: co task_running_def heap_update_def nth_list_update split: if_splits)
          with ed same_objects_flag [OF co] r bl show ?thesis by simp
        qed
      qed
    qed
  qed
qed


lemma new_mapping_has_device:
  "map_of (new_mapping c hass) (DATA_DEVICE c) \<noteq> None"
  by (simp add: new_mapping_def dict_setitem_def update_conv')

lemma new_mapping_distinct:
  assumes "distinct [DATA_DEVICE c, DATA_TRIP c, DATA_SUBSCRIPTION c]"
  shows "new_mapping c hass =
     [(DATA_DEVICE c, length (coordinators hass)),
      (DATA_TRIP c, Suc (length (coordinators hass))),
      (DATA_SUBSCRIPTION c, Suc (Suc (length (coordinators hass))))]"
  using assms by (auto simp: new_mapping_def dict_setitem_def)

lemma holds_coordinatorsI:
  "entry_data c h eid = Some m \<Longrightarrow> coordinator_mapping c h eid m \<Longrightarrow> holds_coordinators c h eid"
  by (simp add: holds_coordinators_def)

lemma holds_coordinatorsE:
  assumes "holds_coordinators c h eid"
  obtains m where "entry_data c h eid = Some m" and "coordinator_mapping c h eid m"
  using assms by (auto simp: holds_coordinators_def split: option.splits)

lemma holds_coordinators_mono:
  assumes "holds_coordinators c h eid" and "entry_data c h' eid = entry_data c h eid"
    and "same_objects h h'"
  shows "holds_coordinators c h' eid"
proof -
  from assms(1) obtain m where m: "entry_data c h eid = Some m" "coordinator_mapping c h eid m"
    by (rule holds_coordinatorsE)
  from m(2) assms(3) have "coordinator_mapping c h' eid m" by (rule coordinator_mapping_mono)
  with m(1) assms(2) show ?thesis by (simp add: holds_coordinators_def)
qed

lemma setup_establishes:
  assumes "distinct [DATA_DEVICE c, DATA_TRIP c, DATA_SUBSCRIPTION c]"
    and "async_setup_entry c refresh_ok hass entry = (Inr ok, hass', entry')"
  shows "holds_coordinators c hass' (entry_id entry)"
proof -
  note s = setup_success [OF assms(2)]
  have "entry_data c hass' (entry_id entry) = Some (new_mapping c hass)"
    using s(4) [of "entry_id entry"] by simp
  moreover have "coordinator_mapping c hass' (entry_id entry) (new_mapping c hass)"
    unfolding new_mapping_distinct [OF assms(1)] coordinator_mapping_def
    by (simp add: s(3) keys_def nth_append)
  ultimately show ?thesis by (rule holds_coordinatorsI)
qed

lemma lifecycle_step_invariant:
  assumes d: "distinct [DATA_DEVICE c, DATA_TRIP c, DATA_SUBSCRIPTION c]"
    and inv: "\<forall>eid \<in> set loaded. holds_coordinators c hass eid"
    and step: "lifecycle_step c (hass, loaded) step = (hass', loaded')"
  shows "\<forall>eid \<in> set loaded'. holds_coordinators c hass' eid"
proof (cases step)
  case (Setup entry refresh_ok)
  obtain r h1 e1 where su: "async_setup_entry c refresh_ok hass entry = (r, h1, e1)"
    by (cases "async_setup_entry c refresh_ok hass entry")
  from step have h': "hass' = h1"
    and l': "loaded' = (if r = Inr True then List.insert (entry_id entry) loaded else loaded)"
    by (simp_all add: Setup su)
  show ?thesis
  proof (cases r)
    case (Inl err)
    note f = setup_failure [OF su [unfolded Inl]]
    from f(4) have so: "same_objects hass h1" by (auto intro: same_objects_append)
    have ed: "\<And>eid. entry_data c h1 eid = entry_data c hass eid"
      using f(1) by (rule entry_data_cong)
    from inv show ?thesis
      by (auto simp: h' l' Inl intro: holds_coordinators_mono [OF _ ed so])
  next
    case (Inr ok)
    note s = setup_success [OF su [unfolded Inr]]
    from s(3) have so: "same_objects hass h1" by (rule same_objects_append)
    have new: "holds_coordinators c h1 (entry_id entry)"
      using d su [unfolded Inr] by (rule setup_establishes)
    have old: "holds_coordinators c h1 eid" if "eid \<in> set loaded" "eid \<noteq> entry_id entry" for eid
    proof -
      from that inv have "holds_coordinators c hass eid" by blast
      moreover have "entry_data c h1 eid = entry_data c hass eid"
        using s(4) [of eid] that(2) by simp
      ultimately show ?thesis using so by (rule holds_coordinators_mono)
    qed
    from new old show ?thesis
      by (auto simp: h' l' split: if_splits)
  qed
next
  case (Unload entry unloads)
  obtain r h1 where un: "async_unload_entry c unloads hass entry = (r, h1)"
    by (cases "async_unload_entry c unloads hass entry")
  from step have h': "hass' = h1"
    and l': "loaded' = (if r = Inr True then removeAll (entry_id entry) loaded else loaded)"
    by (simp_all add: Unload un)
  have fr: "same_objects hass h1"
    "\<And>eid. eid \<noteq> entry_id entry \<Longrightarrow> entry_data c h1 eid = entry_data c hass eid"
    using unload_frame [OF un] by blast+
  have other: "holds_coordinators c h1 eid" if "eid \<in> set loaded" "eid \<noteq> entry_id entry" for eid
  proof -
    from that inv have "holds_coordinators c hass eid" by blast
    then show ?thesis using fr(2) [OF that(2)] fr(1) by (rule holds_coordinators_mono)
  qed
  have own: "holds_coordinators c h1 (entry_id entry)"
    if "entry_id entry \<in> set loaded" "r \<noteq> Inr True"
  proof -
    from that(1) inv have hc: "holds_coordinators c hass (entry_id entry)" by blast
    then obtain m where m: "entry_data c hass (entry_id entry) = Some m"
      "coordinator_mapping c hass (entry_id entry) m"
      by (rule holds_coordinatorsE)
    from m(2) have "DATA_DEVICE c \<in> fst ` set m"
      by (auto simp: coordinator_mapping_def keys_def dest: arg_cong [where f = set])
    then obtain dc where dc: "map_of m (DATA_DEVICE c) = Some dc"
      by (cases "map_of m (DATA_DEVICE c)") (auto simp: map_of_eq_None_iff)
    have "\<not> list_all unloads PLATFORMS"
    proof
      assume "list_all unloads PLATFORMS"
      from unload_platforms_ok [OF this m(1) dc] un that(2) show False by auto
    qed
    from unload_platforms_failed [OF this, of c hass entry] un
    have "h1 = snd (async_unload_platforms unloads hass entry PLATFORMS)" by simp
    then have "hass_data h1 = hass_data hass" "coordinators h1 = coordinators hass"
      by (simp_all add: unload_platforms_frame)
    then have "entry_data c h1 (entry_id entry) = entry_data c hass (entry_id entry)"
      and "same_objects hass h1"
      by (auto intro: entry_data_cong same_objects_eq)
    with hc show ?thesis by (rule holds_coordinators_mono)
  qed
  show ?thesis
  proof
    fix eid assume e: "eid \<in> set loaded'"
    show "holds_coordinators c hass' eid"
    proof (cases "eid = entry_id entry")
      case True
      with e l' have "entry_id entry \<in> set loaded" "r \<noteq> Inr True"
        by (auto split: if_splits)
      then show ?thesis unfolding h' True by (rule own)
    next
      case False
      with e l' have "eid \<in> set loaded" by (auto split: if_splits)
      then show ?thesis unfolding h' using False by (rule other)
    qed
  qed
next
  case Shutdown
  from step have h': "hass' = host_shutdown hass" and l': "loaded' = loaded"
    by (simp_all add: Shutdown)
  have "\<And>eid. entry_data c hass' eid = entry_data c hass eid"
    unfolding h' host_shutdown_def by (rule entry_data_cong) (rule async_fire_frame)
  moreover have "same_objects hass hass'"
    unfolding h' host_shutdown_def by (rule async_fire_frame)
  ultimately show ?thesis using inv
    by (auto simp: l' intro: holds_coordinators_mono)
qed

lemma lifecycle_invariant:
  assumes d: "distinct [DATA_DEVICE c, DATA_TRIP c, DATA_SUBSCRIPTION c]"
  shows "\<forall>eid \<in> set loaded. holds_coordinators c hass eid \<Longrightarrow>
    foldl (lifecycle_step c) (hass, loaded) steps = (hass', loaded') \<Longrightarrow>
    \<forall>eid \<in> set loaded'. holds_coordinators c hass' eid"
proof (induction steps arbitrary: hass loaded)
  case Nil
  then show ?case by simp
next
  case (Cons step steps)
  obtain h1 l1 where s: "lifecycle_step c (hass, loaded) step = (h1, l1)"
    by (cases "lifecycle_step c (hass, loaded) step")
  from lifecycle_step_invariant [OF d Cons.prems(1) s]
  have "\<forall>eid \<in> set l1. holds_coordinators c h1 eid" .
  moreover from Cons.prems(2) have "foldl (lifecycle_step c) (h1, l1) steps = (hass', loaded')"
    by (simp add: s)
  ultimately show ?case by (rule Cons.IH)
qed

lemma setitem_delete_fresh:
  assumes "map_of dd k = None"
  shows "AList.delete k (dict_setitem dd k v) = dd"
proof -
  from assms have "k \<notin> fst ` set dd" by (simp add: map_of_eq_None_iff)
  then show ?thesis by (simp add: dict_setitem_def delete_update_same)
qed

lemma round_trip_hass_data:
  assumes dd: "map_of d (DOMAIN c) = Some dd" and fresh: "map_of dd eid = None"
    and d1: "d1 = dict_setitem (dict_setdefault d (DOMAIN c) []) (DOMAIN c)
         (dict_setitem
            (case map_of (dict_setdefault d (DOMAIN c) []) (DOMAIN c) of
               None \<Rightarrow> [] | Some dd \<Rightarrow> dd) eid m)"
    and dd1: "map_of d1 (DOMAIN c) = Some dd1"
    and d2: "d2 = dict_setitem d1 (DOMAIN c) (AList.delete eid dd1)"
  shows "d2 = d"
proof -
  have sd: "dict_setdefault d (DOMAIN c) [] = d"
    using dd by (simp add: dict_setdefault_def dict_contains_def)
  have d1': "d1 = dict_setitem d (DOMAIN c) (dict_setitem dd eid m)"
    by (simp add: d1 sd dd)
  then have "map_of d1 (DOMAIN c) = Some (dict_setitem dd eid m)"
    by (simp add: dict_setitem_def update_conv')
  with dd1 have "dd1 = dict_setitem dd eid m" by simp
  then have "AList.delete eid dd1 = dd" using fresh by (simp add: setitem_delete_fresh)
  then have "d2 = AList.update (DOMAIN c) dd (AList.update (DOMAIN c) (dict_setitem dd eid m) d)"
    by (simp add: d2 d1' dict_setitem_def)
  also have "\<dots> = AList.update (DOMAIN c) dd d" by (simp add: update_last)
  also have "\<dots> = d" using dd by (simp add: update_triv)
  finally show ?thesis .
qed

section \<open>Background tasks over the life cycle\<close>












section \<open>The sample configuration, evaluated\<close>

lemmas sample_defs =
  sample_const_def fresh_hass_def legacy_entry_def migrated_entry_def loaded_hass_def
  loaded_entry_def unloaded_hass_def

lemmas model_defs =
  async_setup_entry_def async_unload_entry_def async_migrate_options_from_data_if_missing_def
  async_update_entry_def dict_contains_def keys_def DEFAULT_OPTIONS_def dict_merge_def
  dict_pop_default_def dict_setitem_def dict_setdefault_def CONF_USERNAME_def CONF_PASSWORD_def
  new_Account_def new_coordinator_def async_get_clientsession_def
  async_config_entry_first_refresh_def start_background_task_def stop_background_task_def
  heap_update_def async_listen_once_def async_on_unload_def async_setup_platforms_def
  async_unload_platforms_def PLATFORMS_def EVENT_HOMEASSISTANT_STOP_def Let_def

lemma sample_setup:
  "async_setup_entry sample_const (\<lambda>_. True) fresh_hass legacy_entry
     = (Inr True, loaded_hass, loaded_entry)"
  by (simp add: sample_defs model_defs)


lemma sample_reload:
  "\<exists>h e. async_setup_entry sample_const (\<lambda>_. True) unloaded_hass loaded_entry = (Inr True, h, e)"
  by (simp add: sample_defs model_defs)

lemma sample_shutdown:
  "host_shutdown loaded_hass = unloaded_hass\<lparr>hass_data := hass_data loaded_hass,
      forwarded_platforms := forwarded_platforms loaded_hass, bus_listeners := []\<rparr>"
  by (simp add: sample_defs host_shutdown_def async_fire_def model_defs)

lemma unload_after_setup_returns:
  assumes "async_setup_entry c refresh_ok hass entry = (Inr ok, hass1, entry1)"
    and "list_all unloads PLATFORMS"
  shows "\<exists>hass2. async_unload_entry c unloads hass1 entry1 = (Inr True, hass2)"
proof -
  note s = setup_success [OF assms(1)]
  have "entry_data c hass1 (entry_id entry1) = Some (new_mapping c hass)"
    using s(4) [of "entry_id entry"] by (simp add: s(8))
  moreover from new_mapping_has_device [of c hass] obtain dc
    where "map_of (new_mapping c hass) (DATA_DEVICE c) = Some dc" by blast
  ultimately show ?thesis using unload_platforms_ok [OF assms(2)] by blast
qed

lemma sample_run:
  "run_lifecycle sample_const fresh_hass sample_steps =
     (loaded_hass\<lparr>
        accounts := accounts loaded_hass @
          [\<lparr>username = PyStr ''rider'', password = PyStr ''secret'', session = 0\<rparr>],
        coordinators :=
          [\<lparr>coordinator_class = DeviceDataUpdateCoordinator, account = 0,
            config_entry = ''e2'', background_task = False\<rparr>,
           \<lparr>coordinator_class = TripDataUpdateCoordinator, account = 0,
            config_entry = ''e2'', background_task = False\<rparr>,
           \<lparr>coordinator_class = SubscriptionDataUpdateCoordinator, account = 0,
            config_entry = ''e2'', background_task = False\<rparr>,
           \<lparr>coordinator_class = DeviceDataUpdateCoordinator, account = 1,
            config_entry = ''e1'', background_task = False\<rparr>,
           \<lparr>coordinator_class = TripDataUpdateCoordinator, account = 1,
            config_entry = ''e1'', background_task = False\<rparr>,
           \<lparr>coordinator_class = SubscriptionDataUpdateCoordinator, account = 1,
            config_entry = ''e1'', background_task = False\<rparr>],
        bus_listeners := [],
        forwarded_platforms := [(''e2'', SWITCH)]\<rparr>,
      [''e2''])"
  by (simp add: run_lifecycle_def sample_steps_def sample_setup)
     (simp add: sample_defs model_defs host_shutdown_def async_fire_def)





section \<open>The entity: what the constructor computes\<close>

lemma entity_attrs:
  "attrs (BikeTraxBaseEntity_init c co d) = [(''id'', PyStr (id_dev d)), (''name'', PyStr (name_dev d))]"
  by (simp add: BikeTraxBaseEntity_init_def dict_setitem_def)

lemma entity_device_info:
  "attr_device_info (BikeTraxBaseEntity_init c co d) =
     [(''identifiers'', Identifiers {(DOMAIN c, id_dev d)}),
      (''model'', Text (name_dev d)), (''name'', Text (name_dev d))]"
  by (simp add: BikeTraxBaseEntity_init_def dict_setitem_def)


section \<open>Setup, unload and the entity: the claims\<close>

text \<open>
  Claim C2.  A call of \<open>async_setup_entry\<close> constructs at most one \<open>Account\<close>, whatever its
  outcome.  When it returns, it has constructed exactly one, from the username and the password
  stored in \<open>entry.data\<close> and the host's client session, and the three coordinators it has
  created (device, trip, subscription, in this order) all hold this one account.
\<close>

theorem setup_constructs_one_shared_account:
  assumes "async_setup_entry c refresh_ok hass entry = (r, hass', entry')"
  shows "(\<exists>new. accounts hass' = accounts hass @ new \<and> length new \<le> 1)
     \<and> (r = Inr True \<longrightarrow>
          (\<exists>u p. map_of (data entry) CONF_USERNAME = Some u
             \<and> map_of (data entry) CONF_PASSWORD = Some p
             \<and> accounts hass' = accounts hass @
                  [\<lparr>username = u, password = p, session = async_get_clientsession hass\<rparr>])
          \<and> coordinators hass' = coordinators hass @
               [\<lparr>coordinator_class = DeviceDataUpdateCoordinator, account = length (accounts hass),
                 config_entry = entry_id entry, background_task = True\<rparr>,
                \<lparr>coordinator_class = TripDataUpdateCoordinator, account = length (accounts hass),
                 config_entry = entry_id entry, background_task = False\<rparr>,
                \<lparr>coordinator_class = SubscriptionDataUpdateCoordinator,
                 account = length (accounts hass),
                 config_entry = entry_id entry, background_task = False\<rparr>])"
proof (cases r)
  case (Inl err)
  with setup_failure(5) [of c refresh_ok hass entry err hass' entry'] assms show ?thesis by simp
next
  case (Inr ok)
  note s = assms [unfolded Inr]
  from setup_success(2) [OF s] obtain u p where
    up: "map_of (data entry) CONF_USERNAME = Some u" "map_of (data entry) CONF_PASSWORD = Some p"
      "accounts hass' = accounts hass @ [\<lparr>username = u, password = p, session = clientsession hass\<rparr>]"
    by blast
  then have "\<exists>new. accounts hass' = accounts hass @ new \<and> length new \<le> 1" by simp
  with up setup_success(3) [OF s] show ?thesis
    by (simp add: async_get_clientsession_def)
qed

theorem setup_constructs_one_shared_account_witness:
  "async_setup_entry sample_const (\<lambda>_. True) fresh_hass legacy_entry
     = (Inr True, loaded_hass, loaded_entry)
   \<and> accounts loaded_hass = [\<lparr>username = PyStr ''rider'', password = PyStr ''secret'', session = 0\<rparr>]
   \<and> map account (coordinators loaded_hass) = [0, 0, 0]"
  using setup_constructs_one_shared_account [OF sample_setup] sample_setup
  by (simp add: fresh_hass_def legacy_entry_def CONF_USERNAME_def CONF_PASSWORD_def
      async_get_clientsession_def)

text \<open>
  Claim C6.  A call of \<open>async_setup_entry\<close> that returns has forwarded the entry to exactly
  four platforms: binary sensor, device tracker, sensor and switch; a call that raises has
  forwarded it to none.
\<close>

theorem setup_forwards_four_platforms:
  assumes "async_setup_entry c refresh_ok hass entry = (r, hass', entry')"
  shows "forwarded_platforms hass' = forwarded_platforms hass @
           (if r = Inr True
            then [(entry_id entry, BINARY_SENSOR), (entry_id entry, DEVICE_TRACKER),
                  (entry_id entry, SENSOR), (entry_id entry, SWITCH)]
            else [])"
proof (cases r)
  case (Inl err)
  with setup_failure(3) [of c refresh_ok hass entry err hass' entry'] assms show ?thesis by simp
next
  case (Inr ok)
  note s = assms [unfolded Inr]
  from setup_success(1) [OF s] setup_success(7) [OF s] Inr show ?thesis
    by (simp add: PLATFORMS_def)
qed

theorem setup_forwards_four_platforms_witness:
  "async_setup_entry sample_const (\<lambda>_. True) fresh_hass legacy_entry
     = (Inr True, loaded_hass, loaded_entry)
   \<and> forwarded_platforms loaded_hass =
       [(''e2'', BINARY_SENSOR), (''e2'', DEVICE_TRACKER), (''e2'', SENSOR), (''e2'', SWITCH)]"
  using setup_forwards_four_platforms [OF sample_setup] sample_setup
  by (simp add: fresh_hass_def legacy_entry_def)




text \<open>
  Claim C4.  After \<open>async_setup_entry\<close> and then \<open>async_unload_entry\<close> returning \<open>True\<close>,
  \<open>hass.data[DOMAIN]\<close> exists and has no mapping for the entry's id, and the mappings of all
  other entries are as before the setup.  When \<open>hass.data[DOMAIN]\<close> existed before the setup
  and had no mapping for the entry, \<open>hass.data\<close> is exactly what it was.
\<close>

theorem setup_unload_round_trip:
  assumes "async_setup_entry c refresh_ok hass entry = (Inr ok, hass1, entry1)"
    and "async_unload_entry c unloads hass1 entry1 = (Inr True, hass2)"
  shows "map_of (hass_data hass2) (DOMAIN c) \<noteq> None
     \<and> entry_data c hass2 (entry_id entry) = None
     \<and> (\<forall>eid. eid \<noteq> entry_id entry \<longrightarrow> entry_data c hass2 eid = entry_data c hass eid)
     \<and> (map_of (hass_data hass) (DOMAIN c) \<noteq> None \<and> entry_data c hass (entry_id entry) = None
          \<longrightarrow> hass_data hass2 = hass_data hass)"
proof -
  note s = setup_success [OF assms(1)]
  have id: "entry_id entry1 = entry_id entry" by (rule s(8))
  have ed1: "entry_data c hass1 (entry_id entry1) = Some (new_mapping c hass)"
    using s(4) [of "entry_id entry"] by (simp add: id)
  from new_mapping_has_device [of c hass] obtain dc
    where dc: "map_of (new_mapping c hass) (DATA_DEVICE c) = Some dc" by blast
  have ok: "list_all unloads PLATFORMS"
  proof (rule ccontr)
    assume "\<not> list_all unloads PLATFORMS"
    from unload_platforms_failed [OF this] assms(2) show False by simp
  qed
  from unload_platforms_ok [OF ok ed1 dc] obtain h dd1 where
    h: "async_unload_entry c unloads hass1 entry1 = (Inr True, h)"
    and a': "map_of (hass_data h) (DOMAIN c) \<noteq> None"
    and b': "\<forall>eid. entry_data c h eid = (if eid = entry_id entry1 then None else entry_data c hass1 eid)"
    and dd1: "map_of (hass_data hass1) (DOMAIN c) = Some dd1"
    and d2': "hass_data h = dict_setitem (hass_data hass1) (DOMAIN c) (AList.delete (entry_id entry1) dd1)"
    by blast
  from h assms(2) have "h = hass2" by simp
  note a = a' [unfolded this] and b = b' [unfolded this] and d2 = d2' [unfolded this]
  have restored: "hass_data hass2 = hass_data hass"
    if "map_of (hass_data hass) (DOMAIN c) \<noteq> None" "entry_data c hass (entry_id entry) = None"
  proof -
    from that obtain dd where dd: "map_of (hass_data hass) (DOMAIN c) = Some dd"
      and fresh: "map_of dd (entry_id entry) = None"
      by (auto simp: entry_data_def)
    from dd fresh s(10) dd1 d2 [unfolded id] show ?thesis by (rule round_trip_hass_data)
  qed
  from b s(4) a restored show ?thesis by (simp add: id)
qed

theorem setup_unload_round_trip_witness:
  "map_of (hass_data unloaded_hass) (DOMAIN sample_const) \<noteq> None
   \<and> entry_data sample_const unloaded_hass (entry_id loaded_entry) = None
   \<and> (\<exists>h1 e1 h2.
         async_setup_entry sample_const (\<lambda>_. True) unloaded_hass loaded_entry = (Inr True, h1, e1)
       \<and> async_unload_entry sample_const (\<lambda>_. True) h1 e1 = (Inr True, h2)
       \<and> entry_data sample_const h2 ''e2'' = None
       \<and> hass_data h2 = [(''biketrax'', [])])"
proof -
  have a: "map_of (hass_data unloaded_hass) (DOMAIN sample_const) \<noteq> None"
    and b: "entry_data sample_const unloaded_hass (entry_id loaded_entry) = None"
    by (simp_all add: sample_defs entry_data_def)
  from sample_reload obtain h1 e1 where
    s: "async_setup_entry sample_const (\<lambda>_. True) unloaded_hass loaded_entry = (Inr True, h1, e1)"
    by blast
  have "list_all (\<lambda>_. True) PLATFORMS" by (simp add: PLATFORMS_def)
  from unload_after_setup_returns [OF s this] obtain h2 where
    u: "async_unload_entry sample_const (\<lambda>_. True) h1 e1 = (Inr True, h2)"
    by blast
  from setup_unload_round_trip [OF s u] a b
  have "entry_data sample_const h2 ''e2'' = None \<and> hass_data h2 = [(''biketrax'', [])]"
    by (simp add: sample_defs)
  with a b s u show ?thesis by blast
qed

text \<open>
  Claim C10.  When \<open>async_unload_platforms\<close> reports failure, \<open>async_unload_entry\<close> returns
  \<open>False\<close>, \<open>hass.data\<close> is as it was (the entry's dict of coordinators included), and no
  coordinator is touched: the background task is not stopped.
\<close>

theorem unload_failure_leaves_entry_loaded:
  assumes "\<not> fst (async_unload_platforms unloads hass entry PLATFORMS)"
  shows "fst (async_unload_entry c unloads hass entry) = Inr False
     \<and> hass_data (snd (async_unload_entry c unloads hass entry)) = hass_data hass
     \<and> coordinators (snd (async_unload_entry c unloads hass entry)) = coordinators hass
     \<and> bus_listeners (snd (async_unload_entry c unloads hass entry)) = bus_listeners hass"
proof -
  from assms have "\<not> list_all unloads PLATFORMS" by (simp add: unload_platforms_frame)
  then show ?thesis by (simp add: unload_platforms_failed unload_platforms_frame)
qed

theorem unload_failure_leaves_entry_loaded_witness:
  "fst (async_unload_platforms (\<lambda>p. p \<noteq> SENSOR) loaded_hass loaded_entry PLATFORMS) = False
   \<and> fst (async_unload_entry sample_const (\<lambda>p. p \<noteq> SENSOR) loaded_hass loaded_entry) = Inr False
   \<and> hass_data (snd (async_unload_entry sample_const (\<lambda>p. p \<noteq> SENSOR) loaded_hass loaded_entry))
       = [(''biketrax'', [(''e2'', [(''device'', 0), (''trip'', 1), (''subscription'', 2)])])]
   \<and> task_running (snd (async_unload_entry sample_const (\<lambda>p. p \<noteq> SENSOR) loaded_hass loaded_entry)) 0"
proof -
  have f: "\<not> fst (async_unload_platforms (\<lambda>p. p \<noteq> SENSOR) loaded_hass loaded_entry PLATFORMS)"
    by (simp add: async_unload_platforms_def PLATFORMS_def)
  from unload_failure_leaves_entry_loaded [OF f, of sample_const] f show ?thesis
    by (simp add: task_running_def loaded_hass_def)
qed

text \<open>
  Claim C7.  Whatever the host does (set entries up, unload them, shut down, in any order and
  with any outcome), for every entry that has been set up and not yet successfully unloaded
  \<open>hass.data[DOMAIN][entry_id]\<close> is a dict of the three keys \<open>DATA_DEVICE\<close>, \<open>DATA_TRIP\<close> and
  \<open>DATA_SUBSCRIPTION\<close>, mapped to live coordinators of the device, trip and subscription
  class constructed for that entry.  The three keys of \<open>const.py\<close> are taken to differ.
\<close>

theorem loaded_entries_hold_their_coordinators:
  assumes "distinct [DATA_DEVICE c, DATA_TRIP c, DATA_SUBSCRIPTION c]"
    and "run_lifecycle c hass steps = (hass', loaded)"
    and "eid \<in> set loaded"
  shows "holds_coordinators c hass' eid"
proof -
  have "\<forall>eid \<in> set []. holds_coordinators c hass eid" by simp
  from lifecycle_invariant [OF assms(1) this assms(2) [unfolded run_lifecycle_def]] assms(3)
  show ?thesis by blast
qed

theorem loaded_entries_hold_their_coordinators_witness:
  "distinct [DATA_DEVICE sample_const, DATA_TRIP sample_const, DATA_SUBSCRIPTION sample_const]
   \<and> snd (run_lifecycle sample_const fresh_hass sample_steps) = [''e2'']
   \<and> ''e2'' \<in> set (snd (run_lifecycle sample_const fresh_hass sample_steps))
   \<and> holds_coordinators sample_const (fst (run_lifecycle sample_const fresh_hass sample_steps)) ''e2''"
proof -
  have d: "distinct [DATA_DEVICE sample_const, DATA_TRIP sample_const, DATA_SUBSCRIPTION sample_const]"
    by (simp add: sample_const_def)
  have l: "snd (run_lifecycle sample_const fresh_hass sample_steps) = [''e2'']"
    by (simp add: sample_run)
  then have m: "''e2'' \<in> set (snd (run_lifecycle sample_const fresh_hass sample_steps))"
    by simp
  have r: "run_lifecycle sample_const fresh_hass sample_steps =
      (fst (run_lifecycle sample_const fresh_hass sample_steps),
       snd (run_lifecycle sample_const fresh_hass sample_steps))"
    by simp
  from loaded_entries_hold_their_coordinators [OF d r m] d l m
  show ?thesis by simp
qed

text \<open>
  Claim C5.  \<open>BikeTraxBaseEntity.__init__\<close> puts the device's id and name into \<open>_attrs\<close>, and
  builds \<open>_attr_device_info\<close> from \<open>(DOMAIN, id)\<close> as the only identifier and the name as both
  model and name.  Two devices with the same id and name give the same presentation
  attributes, whatever else they hold: no other field of the device is read.
\<close>

theorem entity_presents_id_and_name:
  "attrs (BikeTraxBaseEntity_init c co d) = [(''id'', PyStr (id_dev d)), (''name'', PyStr (name_dev d))]
   \<and> attr_device_info (BikeTraxBaseEntity_init c co d) =
       [(''identifiers'', Identifiers {(DOMAIN c, id_dev d)}),
        (''model'', Text (name_dev d)), (''name'', Text (name_dev d))]
   \<and> device (BikeTraxBaseEntity_init c co d) = d
   \<and> coordinator (BikeTraxBaseEntity_init c co d) = co
   \<and> (\<forall>d'. id_dev d' = id_dev d \<and> name_dev d' = name_dev d \<longrightarrow>
         attrs (BikeTraxBaseEntity_init c co d') = attrs (BikeTraxBaseEntity_init c co d)
       \<and> attr_device_info (BikeTraxBaseEntity_init c co d')
           = attr_device_info (BikeTraxBaseEntity_init c co d))"
proof -
  have "device (BikeTraxBaseEntity_init c co d) = d \<and> coordinator (BikeTraxBaseEntity_init c co d) = co"
    by (simp add: BikeTraxBaseEntity_init_def)
  then show ?thesis
    by (simp add: entity_attrs entity_device_info)
qed

theorem entity_presents_id_and_name_witness:
  "id_dev \<lparr>id_dev = ''bt-42'', name_dev = ''Cargo bike'', \<dots> = (12::nat)\<rparr>
     = id_dev \<lparr>id_dev = ''bt-42'', name_dev = ''Cargo bike'', \<dots> = (87::nat)\<rparr>
   \<and> name_dev \<lparr>id_dev = ''bt-42'', name_dev = ''Cargo bike'', \<dots> = (12::nat)\<rparr>
     = name_dev \<lparr>id_dev = ''bt-42'', name_dev = ''Cargo bike'', \<dots> = (87::nat)\<rparr>
   \<and> attrs (BikeTraxBaseEntity_init sample_const 0
        \<lparr>id_dev = ''bt-42'', name_dev = ''Cargo bike'', \<dots> = (12::nat)\<rparr>)
     = [(''id'', PyStr ''bt-42''), (''name'', PyStr ''Cargo bike'')]
   \<and> attr_device_info (BikeTraxBaseEntity_init sample_const 0
        \<lparr>id_dev = ''bt-42'', name_dev = ''Cargo bike'', \<dots> = (12::nat)\<rparr>)
     = attr_device_info (BikeTraxBaseEntity_init sample_const 0
        \<lparr>id_dev = ''bt-42'', name_dev = ''Cargo bike'', \<dots> = (87::nat)\<rparr>)"
proof -
  let ?d = "\<lparr>id_dev = ''bt-42'', name_dev = ''Cargo bike'', \<dots> = (87::nat)\<rparr>"
  let ?d' = "\<lparr>id_dev = ''bt-42'', name_dev = ''Cargo bike'', \<dots> = (12::nat)\<rparr>"
  note e = entity_presents_id_and_name [of sample_const 0 ?d]
  from e have a: "attrs (BikeTraxBaseEntity_init sample_const 0 ?d)
      = [(''id'', PyStr (id_dev ?d)), (''name'', PyStr (name_dev ?d))]"
    by (rule conjunct1)
  from e have "\<forall>d'. id_dev d' = id_dev ?d \<and> name_dev d' = name_dev ?d \<longrightarrow>
         attrs (BikeTraxBaseEntity_init sample_const 0 d') = attrs (BikeTraxBaseEntity_init sample_const 0 ?d)
       \<and> attr_device_info (BikeTraxBaseEntity_init sample_const 0 d')
           = attr_device_info (BikeTraxBaseEntity_init sample_const 0 ?d)"
    by blast
  from this [rule_format, of ?d'] a show ?thesis by simp
qed

end
